theory Spec2Isabelle
  imports Complex_Main "HOL-Library.AList" "HOL-Library.Sublist"
begin

section \<open>Span lifecycle engine\<close>

text \<open>
  The span engine of the repository (class \<open>SpanEngine\<close>) keeps a map of spans, a map of
  operation bindings and a private timeline. Its methods are asynchronous and call the
  procedures bound to a span; the model threads the engine state and an external world
  explicitly. A bound procedure is a function on the world that either returns a value or
  throws; it does not call back into the engine. \<open>Date.now()\<close> reads the clock of the
  world, \<open>Math.random()\<close> is an argument of \<open>createSpan\<close>.
\<close>

datatype SpanType = NAVIGATION | READ | WRITE | GUI_AUTOMATION | IO_OPERATION | COMPUTATION

datatype SpanStatus =
  PENDING | SIMULATING | AWAITING_APPROVAL | EXECUTING | COMPLETED | FAILED | ROLLED_BACK

datatype json =
  JNull | JBool bool | JStr string | JArr "json list" | JObj "(string \<times> json) list"

record SpanContext =
  span_id :: string
  parentId :: "string option"
  span_type :: SpanType
  span_status :: SpanStatus
  startTime :: int
  endTime :: "int option"
  metadata :: "(string \<times> json) list"
  reversible :: bool

datatype change_kind = ChCreate | ChUpdate | ChDelete

datatype impact_level = ImpactLow | ImpactMedium | ImpactHigh

record SpanDiff =
  changes :: "(change_kind \<times> string \<times> json option \<times> json option) list"
  impact :: impact_level
  diff_reversible :: bool

record 'x world =
  clock :: int
  ext :: 'x

text \<open>A procedure either throws (\<open>Inl\<close> the thrown message) or returns, and may change the world.\<close>

type_synonym ('x, 'a) proc = "'x world \<Rightarrow> (string + 'a) \<times> 'x world"

record ('x, 'r) SpanOperation =
  op_id :: string
  description :: string
  operation :: "('x, 'r) proc"
  rollback :: "('x, unit) proc option"
  simulate :: "('x, SpanDiff) proc"

text \<open>
  The engine throws \<open>Error\<close> objects that differ in their message only; each message of the
  source is one constructor, with the span identifier it mentions. \<open>Raised\<close> is an error
  thrown by a bound procedure and passed on.
\<close>

datatype error =
  SpanNotFound string          \<comment> \<open>\<open>Span ${spanId} not found\<close>\<close>
| NotReady string              \<comment> \<open>\<open>Span ${spanId} is not ready for execution\<close>\<close>
| NotReversible string         \<comment> \<open>\<open>Span ${spanId} is not reversible\<close>\<close>
| InvalidState string          \<comment> \<open>\<open>Span ${spanId} cannot be rolled back in current state\<close>\<close>
| ApprovalNotFound string     \<comment> \<open>\<open>Approval ${approvalId} not found\<close>\<close>
| ApprovalNotPending string   \<comment> \<open>\<open>Approval ${approvalId} is not pending\<close>\<close>
| NotAnApprover string        \<comment> \<open>\<open>User ${userId} is not an approver for this request\<close>\<close>
| NoAuthenticatedUser         \<comment> \<open>\<open>No authenticated user\<close>\<close>
| TypeError string            \<comment> \<open>a \<open>TypeError\<close> of the runtime, with its message\<close>
| Raised string

record ('x, 'r) SpanEngine =
  spans :: "string \<rightharpoonup> SpanContext"
  operations :: "string \<rightharpoonup> ('x, 'r) SpanOperation"
  timeline :: "(string \<times> int \<times> string) list"

definition Date_now :: "'x world \<Rightarrow> int" where
  "Date_now w = clock w"

function decimal_nat :: "nat \<Rightarrow> string" where
  "decimal_nat n =
     (if n < 10 then [''0123456789'' ! n]
      else decimal_nat (n div 10) @ [''0123456789'' ! (n mod 10)])"
  by pat_completeness auto
termination
  by (relation "measure id") auto

definition decimal :: "int \<Rightarrow> string" where
  "decimal i = (if i < 0 then CHR ''-'' # decimal_nat (nat (- i)) else decimal_nat (nat i))"

definition addTimelineEvent ::
  "string \<Rightarrow> string \<Rightarrow> 'x world \<Rightarrow> ('x, 'r) SpanEngine \<Rightarrow> ('x, 'r) SpanEngine" where
  "addTimelineEvent spanId event w st =
     st\<lparr>timeline := timeline st @ [(spanId, Date_now w, event)]\<rparr>"

definition set_status ::
  "string \<Rightarrow> SpanStatus \<Rightarrow> ('x, 'r) SpanEngine \<Rightarrow> ('x, 'r) SpanEngine" where
  "set_status spanId s st =
     (case spans st spanId of
        None \<Rightarrow> st
      | Some sp \<Rightarrow> st\<lparr>spans := (spans st)(spanId \<mapsto> sp\<lparr>span_status := s\<rparr>)\<rparr>)"

definition set_endTime ::
  "string \<Rightarrow> int \<Rightarrow> ('x, 'r) SpanEngine \<Rightarrow> ('x, 'r) SpanEngine" where
  "set_endTime spanId t st =
     (case spans st spanId of
        None \<Rightarrow> st
      | Some sp \<Rightarrow> st\<lparr>spans := (spans st)(spanId \<mapsto> sp\<lparr>endTime := Some t\<rparr>)\<rparr>)"

definition createSpan ::
  "string \<Rightarrow> SpanType \<Rightarrow> ('x, 'r) SpanOperation \<Rightarrow> string option \<Rightarrow>
   ('x, 'r) SpanEngine \<Rightarrow> 'x world \<Rightarrow> string \<times> ('x, 'r) SpanEngine" where
  "createSpan rnd ty opn parent st w =
     (let spanId = ''span_'' @ decimal (Date_now w) @ ''_'' @ rnd;
          sp = \<lparr>span_id = spanId, parentId = parent, span_type = ty,
                  span_status = PENDING, startTime = Date_now w, endTime = None,
                  metadata = [], reversible = (rollback opn \<noteq> None)\<rparr>;
          st1 = st\<lparr>spans := (spans st)(spanId \<mapsto> sp)\<rparr>;
          st2 = st1\<lparr>operations := (operations st1)(spanId \<mapsto> opn)\<rparr>
      in (spanId, addTimelineEvent spanId ''span_created'' w st2))"

definition simulateSpan ::
  "string \<Rightarrow> ('x, 'r) SpanEngine \<Rightarrow> 'x world \<Rightarrow>
   (error + SpanDiff) \<times> ('x, 'r) SpanEngine \<times> 'x world" where
  "simulateSpan spanId st w =
     (case (spans st spanId, operations st spanId) of
        (Some sp, Some opn) \<Rightarrow>
          (let st1 = addTimelineEvent spanId ''simulation_started'' w
                       (set_status spanId SIMULATING st)
           in case simulate opn w of
                (Inr diff, w') \<Rightarrow>
                  (Inr diff,
                   addTimelineEvent spanId ''simulation_completed'' w'
                     (set_status spanId AWAITING_APPROVAL st1), w')
              | (Inl e, w') \<Rightarrow>
                  (Inl (Raised e),
                   addTimelineEvent spanId ''simulation_failed'' w'
                     (set_status spanId FAILED st1), w'))
      | _ \<Rightarrow> (Inl (SpanNotFound spanId), st, w))"

definition executeSpan ::
  "string \<Rightarrow> ('x, 'r) SpanEngine \<Rightarrow> 'x world \<Rightarrow>
   (error + 'r) \<times> ('x, 'r) SpanEngine \<times> 'x world" where
  "executeSpan spanId st w =
     (case (spans st spanId, operations st spanId) of
        (Some sp, Some opn) \<Rightarrow>
          if span_status sp \<noteq> AWAITING_APPROVAL then (Inl (NotReady spanId), st, w)
          else
            (let st1 = addTimelineEvent spanId ''execution_started'' w
                         (set_status spanId EXECUTING st)
             in case operation opn w of
                  (Inr result, w') \<Rightarrow>
                    (Inr result,
                     addTimelineEvent spanId ''execution_completed'' w'
                       (set_endTime spanId (Date_now w') (set_status spanId COMPLETED st1)), w')
                | (Inl e, w') \<Rightarrow>
                    (Inl (Raised e),
                     addTimelineEvent spanId ''execution_failed'' w'
                       (set_endTime spanId (Date_now w') (set_status spanId FAILED st1)), w'))
      | _ \<Rightarrow> (Inl (SpanNotFound spanId), st, w))"

definition rollbackSpan ::
  "string \<Rightarrow> ('x, 'r) SpanEngine \<Rightarrow> 'x world \<Rightarrow>
   (error + unit) \<times> ('x, 'r) SpanEngine \<times> 'x world" where
  "rollbackSpan spanId st w =
     (case (spans st spanId, operations st spanId) of
        (Some sp, Some opn) \<Rightarrow>
          (case (reversible sp, rollback opn) of
             (True, Some rb) \<Rightarrow>
               if span_status sp \<noteq> COMPLETED then (Inl (InvalidState spanId), st, w)
               else
                 (let st1 = addTimelineEvent spanId ''rollback_started'' w st
                  in case rb w of
                       (Inr u, w') \<Rightarrow>
                         (Inr (),
                          addTimelineEvent spanId ''rollback_completed'' w'
                            (set_status spanId ROLLED_BACK st1), w')
                     | (Inl e, w') \<Rightarrow>
                         (Inl (Raised e),
                          addTimelineEvent spanId ''rollback_failed'' w' st1, w'))
           | _ \<Rightarrow> (Inl (NotReversible spanId), st, w))
      | _ \<Rightarrow> (Inl (SpanNotFound spanId), st, w))"

definition getSpan :: "('x, 'r) SpanEngine \<Rightarrow> string \<Rightarrow> SpanContext option" where
  "getSpan st spanId = spans st spanId"

section \<open>Policy and risk governance\<close>

text \<open>
  Class \<open>SecurityGovernanceEngine\<close>. Its maps are JavaScript \<open>Map\<close>s, iterated in insertion
  order, so they are association lists here. The engine reads spans through
  \<open>spanEngine.getSpan\<close>; the span engine's state is an argument.
\<close>

datatype RiskLevel = Low | Medium | High | Critical

record RiskFactor =
  factor_type :: string
  factor_description :: string
  factor_impact :: int
  factor_likelihood :: int

record RiskAssessment =
  level :: RiskLevel
  factors :: "RiskFactor list"
  score :: int
  mitigations :: "string list"

datatype RuleType = Allow | Deny | RequireApproval

record PolicyCondition =
  cond_spanType :: "string list option"
  cond_targetDomains :: "string list option"
  cond_riskLevel :: "RiskLevel list option"
  cond_userRoles :: "string list option"
  cond_allowedHours :: "(int \<times> int) option"
  cond_allowedDays :: "int list option"

record PolicyRule =
  rule_id :: string
  rule_type :: RuleType
  condition :: PolicyCondition
  action :: string
  priority :: int

record SecurityPolicy =
  policy_id :: string
  policy_name :: string
  policy_description :: string
  rules :: "PolicyRule list"
  enabled :: bool
  policy_created :: int
  lastModified :: int

datatype ApproverState = APending | AApproved | ARejected

record ApprovalStatus =
  userId :: string
  approver_status :: ApproverState
  approver_timestamp :: "int option"
  approver_comment :: "string option"

datatype ApprovalState = ApprovalPending | ApprovalApproved | ApprovalRejected | ApprovalExpired

record GovernanceApproval =
  approval_id :: string
  approval_spanId :: string
  requestedBy :: string
  requestedAt :: int
  approvers :: "ApprovalStatus list"
  approval_status :: ApprovalState
  riskAssessment :: RiskAssessment
  expiresAt :: int

record LogLineIdentity =
  identity_id :: string
  username :: string
  email :: string
  roles :: "string list"
  permissions :: "string list"
  identity_contracts :: "string list"

record SecurityGovernanceEngine =
  policies :: "(string \<times> SecurityPolicy) list"
  approvals :: "(string \<times> GovernanceApproval) list"
  currentUser :: "LogLineIdentity option"

definition type_risk :: "SpanType \<Rightarrow> RiskFactor list \<times> int" where
  "type_risk t =
     (case t of
        NAVIGATION \<Rightarrow>
          ([\<lparr>factor_type = ''navigation_risk'',
             factor_description = ''Navigation to external domains'',
             factor_impact = 3, factor_likelihood = 2\<rparr>], 6)
      | WRITE \<Rightarrow>
          ([\<lparr>factor_type = ''data_modification'',
             factor_description = ''Potential data modification'',
             factor_impact = 4, factor_likelihood = 3\<rparr>], 12)
      | GUI_AUTOMATION \<Rightarrow>
          ([\<lparr>factor_type = ''user_interaction'',
             factor_description = ''Automated user interactions'',
             factor_impact = 3, factor_likelihood = 4\<rparr>], 12)
      | _ \<Rightarrow> ([], 0))"

definition risk_of_span :: "SpanContext \<Rightarrow> RiskAssessment" where
  "risk_of_span sp =
     (let (factors0, score0) = type_risk (span_type sp);
          (factors1, totalScore) =
            (if \<not> reversible sp
             then (factors0 @ [\<lparr>factor_type = ''irreversible_action'',
                                factor_description = ''Action cannot be undone'',
                                factor_impact = 5, factor_likelihood = 5\<rparr>], score0 + 25)
             else (factors0, score0));
          lvl = (if totalScore \<le> 10 then Low
                 else if totalScore \<le> 20 then Medium
                 else if totalScore \<le> 35 then High
                 else Critical);
          mitigations0 =
            (if lvl = High \<or> lvl = Critical
             then [''Require manual approval before execution'',
                   ''Enable comprehensive audit logging'']
             else []);
          mitigations1 =
            (if \<not> reversible sp then mitigations0 @ [''Create backup before execution'']
             else mitigations0)
      in \<lparr>level = lvl, factors = factors1, score = totalScore, mitigations = mitigations1\<rparr>)"

definition assessSpanRisk :: "('x, 'r) SpanEngine \<Rightarrow> string \<Rightarrow> error + RiskAssessment" where
  "assessSpanRisk eng spanId =
     (case getSpan eng spanId of
        None \<Rightarrow> Inl (SpanNotFound spanId)
      | Some sp \<Rightarrow> Inr (risk_of_span sp))"

definition getRequiredApprovers :: "RiskLevel \<Rightarrow> string list" where
  "getRequiredApprovers riskLevel =
     (case riskLevel of
        Low \<Rightarrow> []
      | Medium \<Rightarrow> [''approver_1'']
      | High \<Rightarrow> [''approver_1'', ''approver_2'']
      | Critical \<Rightarrow> [''approver_1'', ''approver_2'', ''security_admin''])"

definition requestApproval ::
  "int \<Rightarrow> ('x, 'r) SpanEngine \<Rightarrow> string \<Rightarrow> SecurityGovernanceEngine \<Rightarrow>
   error + (string \<times> SecurityGovernanceEngine)" where
  "requestApproval now eng spanId gov =
     (case currentUser gov of
        None \<Rightarrow> Inl NoAuthenticatedUser
      | Some user \<Rightarrow>
          (case assessSpanRisk eng spanId of
             Inl e \<Rightarrow> Inl e
           | Inr risk \<Rightarrow>
               (let approvalId = ''approval_'' @ decimal now;
                    approval =
                      \<lparr>approval_id = approvalId, approval_spanId = spanId,
                       requestedBy = identity_id user, requestedAt = now,
                       approvers =
                         map (\<lambda>u. \<lparr>userId = u, approver_status = APending,
                                    approver_timestamp = None, approver_comment = None\<rparr>)
                             (getRequiredApprovers (level risk)),
                       approval_status = ApprovalPending, riskAssessment = risk,
                       expiresAt = now + 24 * 60 * 60 * 1000\<rparr>
                in Inr (approvalId,
                        gov\<lparr>approvals := AList.update approvalId approval (approvals gov)\<rparr>))))"

text \<open>
  \<open>approvers.find(...)\<close> returns the first approver with the user identifier, and the
  assignments that follow change that element of the list in place.
\<close>

fun update_first :: "('a \<Rightarrow> bool) \<Rightarrow> ('a \<Rightarrow> 'a) \<Rightarrow> 'a list \<Rightarrow> 'a list" where
  "update_first P f [] = []"
| "update_first P f (x # xs) = (if P x then f x # xs else x # update_first P f xs)"

definition approveSpan ::
  "int \<Rightarrow> string \<Rightarrow> string \<Rightarrow> string option \<Rightarrow> SecurityGovernanceEngine \<Rightarrow>
   error + SecurityGovernanceEngine" where
  "approveSpan now approvalId uid cmt gov =
     (case map_of (approvals gov) approvalId of
        None \<Rightarrow> Inl (ApprovalNotFound approvalId)
      | Some approval \<Rightarrow>
          if approval_status approval \<noteq> ApprovalPending then Inl (ApprovalNotPending approvalId)
          else
            (case find (\<lambda>a. userId a = uid) (approvers approval) of
               None \<Rightarrow> Inl (NotAnApprover uid)
             | Some approver \<Rightarrow>
                 (let approvers' =
                        update_first (\<lambda>a. userId a = uid)
                          (\<lambda>a. a\<lparr>approver_status := AApproved,
                                 approver_timestamp := Some now,
                                 approver_comment := cmt\<rparr>)
                          (approvers approval);
                      approval1 = approval\<lparr>approvers := approvers'\<rparr>;
                      allApproved = list_all (\<lambda>a. approver_status a = AApproved) approvers';
                      approval2 =
                        (if allApproved then approval1\<lparr>approval_status := ApprovalApproved\<rparr>
                         else approval1)
                  in Inr (gov\<lparr>approvals :=
                            AList.update approvalId approval2 (approvals gov)\<rparr>))))"

definition rejectSpan ::
  "int \<Rightarrow> string \<Rightarrow> string \<Rightarrow> string option \<Rightarrow> SecurityGovernanceEngine \<Rightarrow>
   error + SecurityGovernanceEngine" where
  "rejectSpan now approvalId uid cmt gov =
     (case map_of (approvals gov) approvalId of
        None \<Rightarrow> Inl (ApprovalNotFound approvalId)
      | Some approval \<Rightarrow>
          (case find (\<lambda>a. userId a = uid) (approvers approval) of
             None \<Rightarrow> Inl (NotAnApprover uid)
           | Some approver \<Rightarrow>
               (let approvers' =
                      update_first (\<lambda>a. userId a = uid)
                        (\<lambda>a. a\<lparr>approver_status := ARejected,
                               approver_timestamp := Some now,
                               approver_comment := cmt\<rparr>)
                        (approvers approval);
                    approval1 = approval\<lparr>approvers := approvers'\<rparr>;
                    approval2 = approval1\<lparr>approval_status := ApprovalRejected\<rparr>
                in Inr (gov\<lparr>approvals :=
                          AList.update approvalId approval2 (approvals gov)\<rparr>))))"

definition getApproval :: "SecurityGovernanceEngine \<Rightarrow> string \<Rightarrow> GovernanceApproval option" where
  "getApproval gov approvalId = map_of (approvals gov) approvalId"

section \<open>PII detection\<close>

text \<open>
  Class \<open>PIIDetector\<close>. JavaScript strings are lists of characters here, a character being
  a code unit up to U+00FF; the white space of \<open>\s\<close> in that range is tab, line feed,
  vertical tab, form feed, carriage return, space and no-break space. The eight regular
  expressions of \<open>PII_PATTERNS\<close> are sequences of a word boundary \<open>\b\<close> and of one-character
  classes under a greedy quantifier \<open>{lo,hi}\<close>; the group \<open>(?:\d{1,3}\.){3}\<close> is written out
  three times. \<open>match_here\<close> is the backtracking matcher of the regular-expression engine at
  one position: a quantifier first takes as many characters as it can and gives them back
  one by one while the rest of the pattern fails.
\<close>

datatype item = WordBoundary | Rep "char \<Rightarrow> bool" nat "nat option"

definition char_range :: "char \<Rightarrow> char \<Rightarrow> char \<Rightarrow> bool" where
  "char_range lo hi c = ((of_char lo :: nat) \<le> of_char c \<and> (of_char c :: nat) \<le> of_char hi)"

definition is_digit :: "char \<Rightarrow> bool" where
  "is_digit c = char_range (CHR ''0'') (CHR ''9'') c"

definition is_upper :: "char \<Rightarrow> bool" where
  "is_upper c = char_range (CHR ''A'') (CHR ''Z'') c"

definition is_lower :: "char \<Rightarrow> bool" where
  "is_lower c = char_range (CHR ''a'') (CHR ''z'') c"

definition is_word_char :: "char \<Rightarrow> bool" where
  "is_word_char c = (is_upper c \<or> is_lower c \<or> is_digit c \<or> c = CHR ''_'')"

definition is_space :: "char \<Rightarrow> bool" where
  "is_space c = (c \<in> set [CHR 0x09, CHR 0x0A, CHR 0x0B, CHR 0x0C, CHR 0x0D, CHR 0x20, CHR 0xA0])"

definition word_before :: "char option \<Rightarrow> bool" where
  "word_before a = (case a of None \<Rightarrow> False | Some c \<Rightarrow> is_word_char c)"

definition next_char :: "string \<Rightarrow> char option" where
  "next_char s = (case s of [] \<Rightarrow> None | c # cs \<Rightarrow> Some c)"

definition at_boundary :: "char option \<Rightarrow> string \<Rightarrow> bool" where
  "at_boundary prev s = (word_before prev \<noteq> word_before (next_char s))"

primrec try_counts ::
  "(char option \<Rightarrow> string \<Rightarrow> nat option) \<Rightarrow> nat \<Rightarrow> char option \<Rightarrow> string \<Rightarrow> nat \<Rightarrow> nat option"
where
  "try_counts k lo prev s 0 = (if lo = 0 then k prev s else None)"
| "try_counts k lo prev s (Suc n) =
     (if Suc n < lo then None
      else case k (Some (s ! n)) (drop (Suc n) s) of
             Some m \<Rightarrow> Some (Suc n + m)
           | None \<Rightarrow> try_counts k lo prev s n)"

definition max_count :: "(char \<Rightarrow> bool) \<Rightarrow> nat option \<Rightarrow> string \<Rightarrow> nat" where
  "max_count c hi s =
     (case hi of None \<Rightarrow> length (takeWhile c s) | Some h \<Rightarrow> min h (length (takeWhile c s)))"

primrec match_here :: "item list \<Rightarrow> char option \<Rightarrow> string \<Rightarrow> nat option" where
  "match_here [] = (\<lambda>prev s. Some 0)"
| "match_here (it # its) =
     (case it of
        WordBoundary \<Rightarrow> (\<lambda>prev s. if at_boundary prev s then match_here its prev s else None)
      | Rep c lo hi \<Rightarrow> (\<lambda>prev s. try_counts (match_here its) lo prev s (max_count c hi s)))"

text \<open>
  \<open>content.match(pattern)\<close> and \<open>maskedContent.replace(pattern, mask)\<close> with a global
  pattern scan the string from the left; after a match the scan goes on behind it, after
  an empty match one character further. \<open>match\<close> gives the matched substrings (\<open>null\<close> is
  the empty list), \<open>replace\<close> puts the mask in the place of each of them.
\<close>

fun match_all :: "item list \<Rightarrow> char option \<Rightarrow> string \<Rightarrow> string list" where
  "match_all p prev [] = (case match_here p prev [] of Some n \<Rightarrow> [] # [] | None \<Rightarrow> [])"
| "match_all p prev (c # cs) =
     (case match_here p prev (c # cs) of
        Some 0 \<Rightarrow> [] # match_all p (Some c) cs
      | Some (Suc n) \<Rightarrow> take (Suc n) (c # cs) # match_all p (Some ((c # cs) ! n)) (drop n cs)
      | None \<Rightarrow> match_all p (Some c) cs)"

fun replace_all :: "item list \<Rightarrow> string \<Rightarrow> char option \<Rightarrow> string \<Rightarrow> string" where
  "replace_all p msk prev [] = (case match_here p prev [] of Some n \<Rightarrow> msk | None \<Rightarrow> [])"
| "replace_all p msk prev (c # cs) =
     (case match_here p prev (c # cs) of
        Some 0 \<Rightarrow> msk @ c # replace_all p msk (Some c) cs
      | Some (Suc n) \<Rightarrow> msk @ replace_all p msk (Some ((c # cs) ! n)) (drop n cs)
      | None \<Rightarrow> c # replace_all p msk (Some c) cs)"

definition exactly_one :: "(char \<Rightarrow> bool) \<Rightarrow> item" where
  "exactly_one c = Rep c 1 (Some 1)"

definition optional :: "(char \<Rightarrow> bool) \<Rightarrow> item" where
  "optional c = Rep c 0 (Some 1)"

definition email_pattern :: "item list" where
  \<comment> \<open>\<open>/\b[A-Za-z0-9._%+-]+@[A-Za-z0-9.-]+\.[A-Z|a-z]{2,}\b/g\<close>\<close>
  "email_pattern =
     [WordBoundary,
      Rep (\<lambda>c. is_upper c \<or> is_lower c \<or> is_digit c \<or> c \<in> set ''._%+-'') 1 None,
      exactly_one (\<lambda>c. c = CHR ''@''),
      Rep (\<lambda>c. is_upper c \<or> is_lower c \<or> is_digit c \<or> c \<in> set ''.-'') 1 None,
      exactly_one (\<lambda>c. c = CHR ''.''),
      Rep (\<lambda>c. is_upper c \<or> c = CHR ''|'' \<or> is_lower c) 2 None,
      WordBoundary]"

definition ssn_pattern :: "item list" where
  \<comment> \<open>\<open>/\b\d{3}-\d{2}-\d{4}\b/g\<close>\<close>
  "ssn_pattern =
     [WordBoundary, Rep is_digit 3 (Some 3), exactly_one (\<lambda>c. c = CHR ''-''),
      Rep is_digit 2 (Some 2), exactly_one (\<lambda>c. c = CHR ''-''), Rep is_digit 4 (Some 4),
      WordBoundary]"

definition phone_pattern :: "item list" where
  \<comment> \<open>\<open>/\b\d{3}[-.]?\d{3}[-.]?\d{4}\b/g\<close>\<close>
  "phone_pattern =
     [WordBoundary, Rep is_digit 3 (Some 3), optional (\<lambda>c. c \<in> set ''-.''),
      Rep is_digit 3 (Some 3), optional (\<lambda>c. c \<in> set ''-.''), Rep is_digit 4 (Some 4),
      WordBoundary]"

definition creditCard_pattern :: "item list" where
  \<comment> \<open>\<open>/\b\d{4}[\s-]?\d{4}[\s-]?\d{4}[\s-]?\d{4}\b/g\<close>\<close>
  "creditCard_pattern =
     [WordBoundary, Rep is_digit 4 (Some 4), optional (\<lambda>c. is_space c \<or> c = CHR ''-''),
      Rep is_digit 4 (Some 4), optional (\<lambda>c. is_space c \<or> c = CHR ''-''),
      Rep is_digit 4 (Some 4), optional (\<lambda>c. is_space c \<or> c = CHR ''-''),
      Rep is_digit 4 (Some 4), WordBoundary]"

definition ipAddress_pattern :: "item list" where
  \<comment> \<open>\<open>/\b(?:\d{1,3}\.){3}\d{1,3}\b/g\<close>\<close>
  "ipAddress_pattern =
     [WordBoundary,
      Rep is_digit 1 (Some 3), exactly_one (\<lambda>c. c = CHR ''.''),
      Rep is_digit 1 (Some 3), exactly_one (\<lambda>c. c = CHR ''.''),
      Rep is_digit 1 (Some 3), exactly_one (\<lambda>c. c = CHR ''.''),
      Rep is_digit 1 (Some 3), WordBoundary]"

definition passport_pattern :: "item list" where
  \<comment> \<open>\<open>/\b[A-Z]{1,2}\d{6,9}\b/g\<close>\<close>
  "passport_pattern = [WordBoundary, Rep is_upper 1 (Some 2), Rep is_digit 6 (Some 9), WordBoundary]"

definition driverLicense_pattern :: "item list" where
  \<comment> \<open>\<open>/\b[A-Z]{1,2}\d{6,8}\b/g\<close>\<close>
  "driverLicense_pattern =
     [WordBoundary, Rep is_upper 1 (Some 2), Rep is_digit 6 (Some 8), WordBoundary]"

definition bankAccount_pattern :: "item list" where
  \<comment> \<open>\<open>/\b\d{8,17}\b/g\<close>\<close>
  "bankAccount_pattern = [WordBoundary, Rep is_digit 8 (Some 17), WordBoundary]"

definition PII_PATTERNS :: "(string \<times> item list) list" where
  "PII_PATTERNS =
     [(''email'', email_pattern), (''ssn'', ssn_pattern), (''phone'', phone_pattern),
      (''creditCard'', creditCard_pattern), (''ipAddress'', ipAddress_pattern),
      (''passport'', passport_pattern), (''driverLicense'', driverLicense_pattern),
      (''bankAccount'', bankAccount_pattern)]"

definition mask_for :: "string \<Rightarrow> string" where
  "mask_for ty =
     (if ty = ''email'' then ''***@***.***''
      else if ty = ''ssn'' then ''***-**-****''
      else if ty = ''phone'' then ''***-***-****''
      else if ty = ''creditCard'' then ''****-****-****-****''
      else if ty = ''ipAddress'' then ''***.***.***.***''
      else ''***REDACTED***'')"

record PIIDetectionResult =
  hasPII :: bool
  piiTypes :: "string list"
  confidence :: rat
  maskedContent :: string
  originalContent :: string

text \<open>
  One turn of the loop of \<open>detectPII\<close> over the entries of \<open>PII_PATTERNS\<close>; the state is
  \<open>(detectedTypes, maskedContent, confidence)\<close>. The pattern is matched against the
  original content and replaced in the content masked so far. The confidence is a
  floating-point number in the source and a rational number here.
\<close>

definition detect_step ::
  "string \<Rightarrow> string list \<times> string \<times> rat \<Rightarrow> string \<times> item list \<Rightarrow> string list \<times> string \<times> rat"
where
  "detect_step content acc entry =
     (case (acc, entry) of
        ((detectedTypes, masked, conf), (ty, pattern)) \<Rightarrow>
          (let matches = match_all pattern None content
           in if matches \<noteq> []
              then (detectedTypes @ [ty],
                    replace_all pattern (mask_for ty) None masked,
                    conf + of_nat (length matches) * (1 / 10))
              else (detectedTypes, masked, conf)))"

definition detectPII :: "string \<Rightarrow> PIIDetectionResult" where
  "detectPII content =
     (case foldl (detect_step content) ([], content, 0) PII_PATTERNS of
        (detectedTypes, masked, conf) \<Rightarrow>
          \<lparr>hasPII = (detectedTypes \<noteq> []), piiTypes = detectedTypes,
           confidence = min conf 1, maskedContent = masked, originalContent = content\<rparr>)"

subsection \<open>The matches of a pattern, read as a relation\<close>

text \<open>
  \<open>prev_after prev s k\<close> is the character before position \<open>k\<close> of \<open>s\<close>, where \<open>prev\<close> is
  the character before \<open>s\<close>. \<open>accepts p prev s n\<close> says that the items of \<open>p\<close> can consume
  the first \<open>n\<close> characters of \<open>s\<close>; \<open>has_match\<close> says that the matcher succeeds at some
  position of the string, which is when \<open>match\<close> does not return \<open>null\<close>.
\<close>

definition prev_after :: "char option \<Rightarrow> string \<Rightarrow> nat \<Rightarrow> char option" where
  "prev_after prev s k = (if k = 0 then prev else Some (s ! (k - 1)))"

fun accepts :: "item list \<Rightarrow> char option \<Rightarrow> string \<Rightarrow> nat \<Rightarrow> bool" where
  "accepts [] prev s n = (n = 0)"
| "accepts (WordBoundary # its) prev s n = (at_boundary prev s \<and> accepts its prev s n)"
| "accepts (Rep c lo hi # its) prev s n =
     (\<exists>k\<le>n. lo \<le> k \<and> (case hi of None \<Rightarrow> True | Some h \<Rightarrow> k \<le> h) \<and>
        k \<le> length s \<and> (\<forall>i<k. c (s ! i)) \<and>
        accepts its (prev_after prev s k) (drop k s) (n - k))"

fun has_match :: "item list \<Rightarrow> char option \<Rightarrow> string \<Rightarrow> bool" where
  "has_match p prev [] = (match_here p prev [] \<noteq> None)"
| "has_match p prev (c # cs) = (match_here p prev (c # cs) \<noteq> None \<or> has_match p (Some c) cs)"

text \<open>
  The eight patterns have a common shape: a word boundary, a class that takes at least one
  character, more items, a word boundary at the end, and no class that contains \<open>*\<close>.
  A mask is harmless for a pattern when it starts and ends with \<open>*\<close> and holds no match.
  \<open>ctx_rel\<close> relates the character before a position in a string to the character before
  the same position in the replaced string.
\<close>

definition star_free :: "item list \<Rightarrow> bool" where
  "star_free p = list_all (\<lambda>it. case it of WordBoundary \<Rightarrow> True | Rep c lo hi \<Rightarrow> \<not> c (CHR ''*'')) p"

definition pii_pattern :: "item list \<Rightarrow> bool" where
  "pii_pattern p =
     (case p of
        WordBoundary # Rep c lo hi # rest \<Rightarrow>
          1 \<le> lo \<and> rest \<noteq> [] \<and> last rest = WordBoundary \<and> star_free p
      | _ \<Rightarrow> False)"

definition mask_ok :: "item list \<Rightarrow> string \<Rightarrow> bool" where
  "mask_ok q msk = (msk \<noteq> [] \<and> hd msk = CHR ''*'' \<and> last msk = CHR ''*'' \<and> \<not> has_match q None msk)"

definition ctx_rel :: "char option \<Rightarrow> char option \<Rightarrow> string \<Rightarrow> bool" where
  "ctx_rel prev prev' s =
     (word_before prev' = word_before prev \<or> (\<not> word_before prev' \<and> at_boundary prev s))"

definition masked_of :: "string list \<times> string \<times> rat \<Rightarrow> string" where
  "masked_of acc = fst (snd acc)"

section \<open>Policy evaluation\<close>

text \<open>
  \<open>JSON.stringify\<close> on the values that occur here: \<open>null\<close>, booleans, strings, arrays and
  objects (numbers are left out). The members of an object are written in the order of
  the association list.
\<close>

definition hex_digit :: "nat \<Rightarrow> char" where
  "hex_digit n = ''0123456789abcdef'' ! n"

definition json_escape :: "char \<Rightarrow> string" where
  "json_escape c =
     (if c = CHR 0x22 then [CHR 0x5C, CHR 0x22]
      else if c = CHR 0x5C then [CHR 0x5C, CHR 0x5C]
      else if c = CHR 0x08 then [CHR 0x5C, CHR ''b'']
      else if c = CHR 0x0C then [CHR 0x5C, CHR ''f'']
      else if c = CHR 0x0A then [CHR 0x5C, CHR ''n'']
      else if c = CHR 0x0D then [CHR 0x5C, CHR ''r'']
      else if c = CHR 0x09 then [CHR 0x5C, CHR ''t'']
      else if (of_char c :: nat) < 32
        then [CHR 0x5C, CHR ''u'', CHR ''0'', CHR ''0'',
              hex_digit (of_char c div 16), hex_digit (of_char c mod 16)]
      else [c])"

definition json_quote :: "string \<Rightarrow> string" where
  "json_quote s = CHR 0x22 # concat (map json_escape s) @ [CHR 0x22]"

fun commas :: "string list \<Rightarrow> string" where
  "commas [] = []"
| "commas [x] = x"
| "commas (x # y # ys) = x @ '','' @ commas (y # ys)"

primrec JSON_stringify :: "json \<Rightarrow> string" where
  "JSON_stringify JNull = ''null''"
| "JSON_stringify (JBool b) = (if b then ''true'' else ''false'')"
| "JSON_stringify (JStr s) = json_quote s"
| "JSON_stringify (JArr xs) = ''['' @ commas (map JSON_stringify xs) @ '']''"
| "JSON_stringify (JObj kvs) =
     ''{'' @ commas (map (\<lambda>kv. json_quote (fst kv) @ '':'' @ snd kv)
                       (map (map_prod id JSON_stringify) kvs)) @ ''}''"

definition js_truthy :: "json \<Rightarrow> bool" where
  "js_truthy v = (case v of JNull \<Rightarrow> False | JBool b \<Rightarrow> b | JStr s \<Rightarrow> s \<noteq> [] | _ \<Rightarrow> True)"

text \<open>
  \<open>evaluateSpanAgainstPolicies\<close> reads the property \<open>args\<close> of the span object that
  \<open>spanEngine.getSpan\<close> returns. \<open>SpanContext\<close> declares no such field and \<open>createSpan\<close>
  sets none; the object returned is the live one, so the property is there when a caller
  has written it. The value that the property read gives is the argument \<open>args\<close> of the
  functions below, \<open>None\<close> standing for \<open>undefined\<close>.
\<close>

definition spanContent :: "json option \<Rightarrow> string" where
  \<comment> \<open>\<open>JSON.stringify(span.args || {})\<close>\<close>
  "spanContent args =
     JSON_stringify
       (case args of
          None \<Rightarrow> JObj []
        | Some a \<Rightarrow> if js_truthy a then a else JObj [])"

fun str_includes :: "string \<Rightarrow> string \<Rightarrow> bool" where
  "str_includes [] sub = (sub = [])"
| "str_includes (c # cs) sub = (prefix sub (c # cs) \<or> str_includes cs sub)"

definition hasApprovedPIIContract :: "SecurityGovernanceEngine \<Rightarrow> string \<Rightarrow> bool" where
  "hasApprovedPIIContract gov spanId =
     list_ex (\<lambda>approval.
                approval_spanId approval = spanId \<and>
                approval_status approval = ApprovalApproved \<and>
                list_ex (\<lambda>factor. str_includes (factor_type factor) ''pii'')
                        (factors (riskAssessment approval)))
             (map snd (approvals gov))"

record PolicyEvaluation =
  allowed :: bool
  requiresApproval :: bool
  violations :: "string list"
  applicablePolicies :: "string list"
  piiDetected :: bool
  contractRequired :: bool

text \<open>
  The loop over the policies calls \<open>this.ruleApplies(rule, span, riskAssessment)\<close>. The
  class, which the sources hold from its first line to its last, defines no method of
  that name, nor does anything else assign one: the call throws a \<open>TypeError\<close> whenever it
  is reached.
\<close>

definition ruleApplies :: "PolicyRule \<Rightarrow> SpanContext \<Rightarrow> RiskAssessment \<Rightarrow> error + bool" where
  "ruleApplies rule sp risk = Inl (TypeError ''this.ruleApplies is not a function'')"

text \<open>
  A loop whose body may throw: the first error ends it. The state of the loop over the
  policies is \<open>(allowed, requiresApproval, violations, applicablePolicies)\<close>.
\<close>

fun for_each :: "('s \<Rightarrow> 'a \<Rightarrow> error + 's) \<Rightarrow> 's \<Rightarrow> 'a list \<Rightarrow> error + 's" where
  "for_each f st [] = Inr st"
| "for_each f st (x # xs) = (case f st x of Inl e \<Rightarrow> Inl e | Inr st' \<Rightarrow> for_each f st' xs)"

definition apply_rule ::
  "SpanContext \<Rightarrow> RiskAssessment \<Rightarrow> SecurityPolicy \<Rightarrow>
   bool \<times> bool \<times> string list \<times> string list \<Rightarrow> PolicyRule \<Rightarrow>
   error + bool \<times> bool \<times> string list \<times> string list" where
  "apply_rule sp risk policy acc rule =
     (case ruleApplies rule sp risk of
        Inl e \<Rightarrow> Inl e
      | Inr applies \<Rightarrow>
          Inr (case acc of
                 (alw, req, viol, appl) \<Rightarrow>
                   if applies
                   then (case rule_type rule of
                           Deny \<Rightarrow>
                             (False, req,
                              viol @ [''Policy '' @ [CHR 0x27] @ policy_name policy @ [CHR 0x27]
                                      @ '': '' @ action rule],
                              appl @ [policy_id policy])
                         | RequireApproval \<Rightarrow> (alw, True, viol, appl @ [policy_id policy])
                         | Allow \<Rightarrow> (alw, req, viol, appl @ [policy_id policy]))
                   else acc))"

definition apply_policy ::
  "SpanContext \<Rightarrow> RiskAssessment \<Rightarrow> bool \<times> bool \<times> string list \<times> string list \<Rightarrow>
   SecurityPolicy \<Rightarrow> error + bool \<times> bool \<times> string list \<times> string list" where
  "apply_policy sp risk acc policy =
     (if \<not> enabled policy then Inr acc
      else for_each (apply_rule sp risk policy) acc (rules policy))"

definition evaluateSpanAgainstPolicies ::
  "SecurityGovernanceEngine \<Rightarrow> ('x, 'r) SpanEngine \<Rightarrow> string \<Rightarrow> json option \<Rightarrow>
   error + PolicyEvaluation" where
  "evaluateSpanAgainstPolicies gov eng spanId args =
     (case getSpan eng spanId of
        None \<Rightarrow> Inl (SpanNotFound spanId)
      | Some sp \<Rightarrow>
          (case assessSpanRisk eng spanId of
             Inl e \<Rightarrow> Inl e
           | Inr risk \<Rightarrow>
               (let piiResult = detectPII (spanContent args);
                    pii = hasPII piiResult;
                    noContract = (pii \<and> \<not> hasApprovedPIIContract gov spanId);
                    start =
                      (True, noContract,
                       (if noContract
                        then [''PII detected - contract approval required before execution'']
                        else []),
                       [])
                in case for_each (apply_policy sp risk) start (map snd (policies gov)) of
                     Inl e \<Rightarrow> Inl e
                   | Inr (alw, req, viol, appl) \<Rightarrow>
                       Inr \<lparr>allowed = alw, requiresApproval = req, violations = viol,
                            applicablePolicies = appl, piiDetected = pii,
                            contractRequired = noContract\<rparr>)))"

text \<open>
  The constructor of the governance engine: the three default policies, two of them
  enabled, and the default user as the current user. \<open>Date.now()\<close> is the argument.
\<close>

definition no_condition :: PolicyCondition where
  "no_condition =
     \<lparr>cond_spanType = None, cond_targetDomains = None, cond_riskLevel = None,
      cond_userRoles = None, cond_allowedHours = None, cond_allowedDays = None\<rparr>"

definition initializeDefaultPolicies :: "int \<Rightarrow> (string \<times> SecurityPolicy) list" where
  "initializeDefaultPolicies now =
     map (\<lambda>policy. (policy_id policy, policy))
       [\<lparr>policy_id = ''high-risk-approval'',
         policy_name = ''High Risk Operations Require Approval'',
         policy_description =
           ''Operations with high risk level must be approved before execution'',
         rules =
           [\<lparr>rule_id = ''rule-1'', rule_type = RequireApproval,
             condition = no_condition\<lparr>cond_riskLevel := Some [High, Critical]\<rparr>,
             action = ''require_governance_approval'', priority = 1\<rparr>],
         enabled = True, policy_created = now, lastModified = now\<rparr>,
        \<lparr>policy_id = ''domain-restrictions'',
         policy_name = ''Domain Access Restrictions'',
         policy_description = ''Restrict access to sensitive domains'',
         rules =
           [\<lparr>rule_id = ''rule-2'', rule_type = Deny,
             condition =
               no_condition\<lparr>cond_targetDomains :=
                 Some [''admin.internal'', ''secure.company.com'', ''*.gov'']\<rparr>,
             action = ''block_access'', priority = 2\<rparr>],
         enabled = True, policy_created = now, lastModified = now\<rparr>,
        \<lparr>policy_id = ''business-hours'',
         policy_name = ''Business Hours Only'',
         policy_description = ''Restrict automation to business hours'',
         rules =
           [\<lparr>rule_id = ''rule-3'', rule_type = Deny,
             condition =
               no_condition\<lparr>cond_allowedHours := Some (9, 17),
                              cond_allowedDays := Some [1, 2, 3, 4, 5]\<rparr>,
             action = ''time_restriction'', priority = 3\<rparr>],
         enabled = False, policy_created = now, lastModified = now\<rparr>]"

definition initializeDefaultIdentity :: LogLineIdentity where
  "initializeDefaultIdentity =
     \<lparr>identity_id = ''user_default'', username = ''demo-user'',
      email = ''demo@loglinebrowser.com'', roles = [''operator'', ''viewer''],
      permissions = [''span:create'', ''span:read'', ''span:simulate'', ''browser:navigate'',
                     ''browser:read''],
      identity_contracts = []\<rparr>"

definition new_SecurityGovernanceEngine :: "int \<Rightarrow> SecurityGovernanceEngine" where
  "new_SecurityGovernanceEngine now =
     \<lparr>policies = initializeDefaultPolicies now, approvals = [],
      currentUser = Some initializeDefaultIdentity\<rparr>"

section \<open>Timeline and observability store\<close>

text \<open>
  Class \<open>TimelineObservabilityEngine\<close>. The declarations of the event type enumeration,
  of the event and metric records and of the two query types are not part of the sources;
  the records below have the fields that the methods read and write, and the event type is
  a type parameter. Timestamps and the numbers of a query are integers.
\<close>

datatype Severity = SevInfo | SevWarning | SevError | SevCritical

record 't TimelineEvent =
  event_id :: string
  event_timestamp :: int
  event_type :: 't
  event_source :: string
  event_spanId :: "string option"
  event_userId :: "string option"
  event_severity :: Severity
  event_message :: string
  event_metadata :: "(string \<times> json) list"
  event_tags :: "string list"

record PerformanceMetric =
  metric_id :: string
  metric_timestamp :: int
  metric :: string
  metric_value :: real
  metric_unit :: string
  metric_source :: string
  metric_tags :: "(string \<times> string) list"

record 't TimelineQuery =
  q_startTime :: "int option"
  q_endTime :: "int option"
  q_eventTypes :: "'t list option"
  q_sources :: "string list option"
  q_severities :: "Severity list option"
  q_spanIds :: "string list option"
  q_userIds :: "string list option"
  q_tags :: "string list option"
  q_offset :: "int option"
  q_limit :: "int option"


record 't TimelineStore =
  events :: "'t TimelineEvent list"
  metrics :: "PerformanceMetric list"

record EventOptions =
  opt_spanId :: "string option"
  opt_userId :: "string option"
  opt_severity :: "Severity option"
  opt_metadata :: "(string \<times> json) list option"
  opt_tags :: "string list option"

text \<open>\<open>Array.prototype.slice(start, end)\<close>: a negative index counts from the end.\<close>

definition js_slice :: "'a list \<Rightarrow> int \<Rightarrow> int \<Rightarrow> 'a list" where
  "js_slice xs start fin =
     (let len = int (length xs);
          k = (if start < 0 then max (len + start) 0 else min start len);
          final = (if fin < 0 then max (len + fin) 0 else min fin len)
      in take (nat (final - k)) (drop (nat k) xs))"

text \<open>
  A listener is a callback that may change the store; what it throws is caught and logged
  to the console. The listeners registered for an event type are the argument \<open>listeners\<close>.
\<close>

definition logEvent ::
  "('t \<Rightarrow> ('t TimelineEvent \<Rightarrow> 't TimelineStore \<Rightarrow> 't TimelineStore) list) \<Rightarrow> int \<Rightarrow> string \<Rightarrow>
   't \<Rightarrow> string \<Rightarrow> string \<Rightarrow> EventOptions \<Rightarrow> 't TimelineStore \<Rightarrow> string \<times> 't TimelineStore"
where
  "logEvent listeners now rnd ty src msg opts st =
     (let eventId = ''event_'' @ decimal now @ ''_'' @ rnd;
          event = \<lparr>event_id = eventId, event_timestamp = now, event_type = ty,
                   event_source = src, event_spanId = opt_spanId opts,
                   event_userId = opt_userId opts,
                   event_severity = (case opt_severity opts of None \<Rightarrow> SevInfo | Some v \<Rightarrow> v),
                   event_message = msg,
                   event_metadata = (case opt_metadata opts of None \<Rightarrow> [] | Some m \<Rightarrow> m),
                   event_tags = (case opt_tags opts of None \<Rightarrow> [] | Some t \<Rightarrow> t)\<rparr>;
          st1 = st\<lparr>events := events st @ [event]\<rparr>;
          st2 = foldl (\<lambda>s listener. listener event s) st1 (listeners ty);
          st3 = (if length (events st2) > 1000
                 then st2\<lparr>events := js_slice (events st2) (- 1000) (int (length (events st2)))\<rparr>
                 else st2)
      in (eventId, st3))"

text \<open>A number of a query is used when it is present and not zero (\<open>if (query.startTime)\<close>).\<close>

definition truthy_num :: "int option \<Rightarrow> bool" where
  "truthy_num v = (case v of None \<Rightarrow> False | Some n \<Rightarrow> n \<noteq> 0)"

definition nonempty_list :: "'a list option \<Rightarrow> bool" where
  "nonempty_list v = (case v of None \<Rightarrow> False | Some xs \<Rightarrow> length xs > 0)"

definition when_filter :: "bool \<Rightarrow> ('a \<Rightarrow> bool) \<Rightarrow> 'a list \<Rightarrow> 'a list" where
  "when_filter b P xs = (if b then filter P xs else xs)"

definition id_in :: "string option \<Rightarrow> string list \<Rightarrow> bool" where
  \<comment> \<open>\<open>e.spanId && ids.includes(e.spanId)\<close>\<close>
  "id_in v ids = (case v of None \<Rightarrow> False | Some i \<Rightarrow> i \<noteq> [] \<and> i \<in> set ids)"

definition filterEvents :: "'t TimelineQuery \<Rightarrow> 't TimelineEvent list \<Rightarrow> 't TimelineEvent list" where
  "filterEvents q =
     when_filter (nonempty_list (q_tags q))
       (\<lambda>e. list_ex (\<lambda>tag. tag \<in> set (event_tags e)) (the (q_tags q))) \<circ>
     when_filter (nonempty_list (q_userIds q)) (\<lambda>e. id_in (event_userId e) (the (q_userIds q))) \<circ>
     when_filter (nonempty_list (q_spanIds q)) (\<lambda>e. id_in (event_spanId e) (the (q_spanIds q))) \<circ>
     when_filter (nonempty_list (q_severities q))
       (\<lambda>e. event_severity e \<in> set (the (q_severities q))) \<circ>
     when_filter (nonempty_list (q_sources q)) (\<lambda>e. event_source e \<in> set (the (q_sources q))) \<circ>
     when_filter (nonempty_list (q_eventTypes q))
       (\<lambda>e. event_type e \<in> set (the (q_eventTypes q))) \<circ>
     when_filter (truthy_num (q_endTime q)) (\<lambda>e. event_timestamp e \<le> the (q_endTime q)) \<circ>
     when_filter (truthy_num (q_startTime q)) (\<lambda>e. event_timestamp e \<ge> the (q_startTime q))"

text \<open>
  \<open>sort((a, b) => b.timestamp - a.timestamp)\<close> is a stable sort by descending timestamp, as
  is the insertion sort by the negated timestamp.
\<close>

definition newest_first :: "('a \<Rightarrow> int) \<Rightarrow> 'a list \<Rightarrow> 'a list" where
  "newest_first ts xs = sort_key (\<lambda>x. - ts x) xs"

definition num_or :: "int option \<Rightarrow> int \<Rightarrow> int" where
  \<comment> \<open>\<open>query.limit || 100\<close>\<close>
  "num_or v d = (case v of None \<Rightarrow> d | Some n \<Rightarrow> if n = 0 then d else n)"

definition queryEvents :: "'t TimelineStore \<Rightarrow> 't TimelineQuery \<Rightarrow> 't TimelineEvent list" where
  "queryEvents st q =
     (let filteredEvents = newest_first event_timestamp (filterEvents q (events st));
          offset = num_or (q_offset q) 0;
          limit = num_or (q_limit q) 100
      in js_slice filteredEvents offset (offset + limit))"



section \<open>Reference definitions and example values\<close>

text \<open>The risk score and level in the words of the specification.\<close>

definition spec_type_weight :: "SpanType \<Rightarrow> int" where
  "spec_type_weight t =
     (if t = WRITE then 12 else if t = GUI_AUTOMATION then 12 else if t = NAVIGATION then 6 else 0)"

definition spec_score :: "SpanType \<Rightarrow> bool \<Rightarrow> int" where
  "spec_score t r = spec_type_weight t + (if r then 0 else 25)"

definition spec_level :: "int \<Rightarrow> RiskLevel" where
  "spec_level s =
     (if s \<le> 10 then Low else if s \<le> 20 then Medium else if s \<le> 35 then High else Critical)"

text \<open>A span engine with one span, whose bound procedures all succeed.\<close>

definition demo_diff :: SpanDiff where
  "demo_diff = \<lparr>changes = [], impact = ImpactLow, diff_reversible = True\<rparr>"

definition demo_op :: "(unit, nat) SpanOperation" where
  "demo_op =
     \<lparr>op_id = ''op1'', description = ''demo'',
      operation = (\<lambda>w. (Inr 7, w)),
      rollback = Some (\<lambda>w. (Inr (), w)),
      simulate = (\<lambda>w. (Inr demo_diff, w))\<rparr>"

definition demo_world :: "unit world" where
  "demo_world = \<lparr>clock = 5, ext = ()\<rparr>"

definition empty_engine :: "(unit, nat) SpanEngine" where
  "empty_engine = \<lparr>spans = Map.empty, operations = Map.empty, timeline = []\<rparr>"

definition demo_span :: "SpanStatus \<Rightarrow> bool \<Rightarrow> SpanContext" where
  "demo_span s r =
     \<lparr>span_id = ''s1'', parentId = None, span_type = WRITE, span_status = s,
      startTime = 1, endTime = None, metadata = [], reversible = r\<rparr>"

definition demo_engine :: "SpanStatus \<Rightarrow> bool \<Rightarrow> (unit, nat) SpanEngine" where
  "demo_engine s r =
     \<lparr>spans = [''s1'' \<mapsto> demo_span s r], operations = [''s1'' \<mapsto> demo_op], timeline = []\<rparr>"

text \<open>The same engine with a rollback procedure that throws.\<close>

definition failing_rollback :: "(unit, unit) proc" where
  "failing_rollback w = (Inl ''boom'', w)"

definition failing_engine :: "(unit, nat) SpanEngine" where
  "failing_engine =
     \<lparr>spans = [''s1'' \<mapsto> demo_span COMPLETED True],
      operations = [''s1'' \<mapsto> demo_op\<lparr>rollback := Some failing_rollback\<rparr>],
      timeline = []\<rparr>"

text \<open>
  The calls \<open>createSpan\<close>, \<open>simulateSpan\<close>, \<open>executeSpan\<close>, \<open>simulateSpan\<close>, \<open>executeSpan\<close> on one
  span: the results of the four last calls and the status of the span at the end.
\<close>

definition resimulated_run ::
  "(error + SpanDiff) \<times> (error + nat) \<times> (error + SpanDiff) \<times> (error + nat) \<times> SpanStatus option"
where
  "resimulated_run =
     (let (sid, e0) = createSpan ''r1'' WRITE demo_op None empty_engine demo_world;
          (r1, e1, w1) = simulateSpan sid e0 demo_world;
          (r2, e2, w2) = executeSpan sid e1 w1;
          (r3, e3, w3) = simulateSpan sid e2 w2;
          (r4, e4, w4) = executeSpan sid e3 w3
      in (r1, r2, r3, r4, map_option span_status (spans e4 sid)))"

text \<open>An approval of a critical span, with its three approvers.\<close>

definition pending_approver :: "string \<Rightarrow> ApprovalStatus" where
  "pending_approver u =
     \<lparr>userId = u, approver_status = APending, approver_timestamp = None,
      approver_comment = None\<rparr>"

definition demo_approval :: GovernanceApproval where
  "demo_approval =
     \<lparr>approval_id = ''approval_1'', approval_spanId = ''s1'', requestedBy = ''user_default'',
      requestedAt = 1, approvers = map pending_approver (getRequiredApprovers Critical),
      approval_status = ApprovalPending,
      riskAssessment = risk_of_span (demo_span AWAITING_APPROVAL False),
      expiresAt = 86400001\<rparr>"

definition demo_gov :: SecurityGovernanceEngine where
  "demo_gov = \<lparr>policies = [], approvals = [(''approval_1'', demo_approval)], currentUser = None\<rparr>"


text \<open>All three approvers approve.\<close>

definition all_approved :: "error + SecurityGovernanceEngine" where
  "all_approved =
     (case approveSpan 10 ''approval_1'' ''approver_1'' None demo_gov of
        Inl e \<Rightarrow> Inl e
      | Inr g1 \<Rightarrow>
          (case approveSpan 11 ''approval_1'' ''approver_2'' None g1 of
             Inl e \<Rightarrow> Inl e
           | Inr g2 \<Rightarrow> approveSpan 12 ''approval_1'' ''security_admin'' None g2))"

text \<open>The first two approvals of scenario C alone.\<close>

definition two_approved :: "error + SecurityGovernanceEngine" where
  "two_approved =
     (case approveSpan 10 ''approval_1'' ''approver_1'' None demo_gov of
        Inl e \<Rightarrow> Inl e
      | Inr g1 \<Rightarrow> approveSpan 11 ''approval_1'' ''approver_2'' None g1)"

text \<open>The state that the two approvals leave.\<close>

definition approved_approver :: "string \<Rightarrow> int \<Rightarrow> ApprovalStatus" where
  "approved_approver u t =
     \<lparr>userId = u, approver_status = AApproved, approver_timestamp = Some t,
      approver_comment = None\<rparr>"

definition two_approved_approval :: GovernanceApproval where
  "two_approved_approval =
     demo_approval\<lparr>approvers :=
       [approved_approver ''approver_1'' 10, approved_approver ''approver_2'' 11,
        pending_approver ''security_admin'']\<rparr>"

definition two_approved_gov :: SecurityGovernanceEngine where
  "two_approved_gov =
     \<lparr>policies = [], approvals = [(''approval_1'', two_approved_approval)], currentUser = None\<rparr>"

text \<open>
  A read span made by \<open>createSpan\<close>, an argument payload with an email address that a
  caller has put on the span object, and the governance engine as its constructor leaves
  it. A governance engine without policies.
\<close>

definition read_engine :: "(unit, nat) SpanEngine" where
  "read_engine = snd (createSpan ''r1'' READ demo_op None empty_engine demo_world)"

definition pii_args :: "json option" where
  "pii_args = Some (JObj [(''email'', JStr ''john@example.com'')])"

definition default_gov :: SecurityGovernanceEngine where
  "default_gov = new_SecurityGovernanceEngine 0"

definition bare_gov :: SecurityGovernanceEngine where
  "bare_gov = \<lparr>policies = [], approvals = [], currentUser = Some initializeDefaultIdentity\<rparr>"




definition demo_event :: "int \<Rightarrow> nat TimelineEvent" where
  "demo_event t =
     \<lparr>event_id = ''e'', event_timestamp = t, event_type = 0, event_source = ''system'',
      event_spanId = None, event_userId = None, event_severity = SevInfo,
      event_message = ''m'', event_metadata = [], event_tags = []\<rparr>"

definition big_store :: "nat TimelineStore" where
  "big_store = \<lparr>events = map demo_event [1..101], metrics = []\<rparr>"


definition empty_query :: "nat TimelineQuery" where
  "empty_query =
     \<lparr>q_startTime = None, q_endTime = None, q_eventTypes = None, q_sources = None,
      q_severities = None, q_spanIds = None, q_userIds = None, q_tags = None,
      q_offset = None, q_limit = None\<rparr>"

section \<open>Span lifecycle: properties\<close>

lemmas engine_defs =
  simulateSpan_def executeSpan_def rollbackSpan_def createSpan_def addTimelineEvent_def
  set_status_def set_endTime_def Date_now_def Let_def

lemmas demo_engine_defs = demo_engine_def demo_span_def demo_op_def demo_world_def

text \<open>
  \<open>executeSpan\<close> returns a result exactly when the span and its binding exist, the status
  is \<open>awaiting_approval\<close> and the forward procedure returns.
\<close>

lemma executeSpan_succeeds_iff:
  "(\<exists>r st' w'. executeSpan sid st w = (Inr r, st', w')) \<longleftrightarrow>
   (\<exists>sp opn r w'. spans st sid = Some sp \<and> operations st sid = Some opn \<and>
        span_status sp = AWAITING_APPROVAL \<and> operation opn w = (Inr r, w'))"
  by (auto simp: executeSpan_def Let_def split: option.splits prod.splits sum.splits if_splits)

lemma executeSpan_not_ready:
  "spans st sid = Some sp \<Longrightarrow> operations st sid = Some opn \<Longrightarrow>
   span_status sp \<noteq> AWAITING_APPROVAL \<Longrightarrow> executeSpan sid st w = (Inl (NotReady sid), st, w)"
  by (simp add: executeSpan_def)

text \<open>
  \<open>simulateSpan\<close> does not look at the status: whenever the span and its binding exist and
  the simulate procedure returns, the span ends in \<open>awaiting_approval\<close>.
\<close>

lemma simulateSpan_any_status:
  "spans st sid = Some sp \<Longrightarrow> operations st sid = Some opn \<Longrightarrow> simulate opn w = (Inr d, w') \<Longrightarrow>
   fst (simulateSpan sid st w) = Inr d \<and>
   spans (fst (snd (simulateSpan sid st w))) sid = Some (sp\<lparr>span_status := AWAITING_APPROVAL\<rparr>)"
  by (simp add: simulateSpan_def addTimelineEvent_def set_status_def Let_def)

text \<open>
  Claim C1 (the code departs from it). After \<open>createSpan\<close>, \<open>simulateSpan\<close> and a first
  \<open>executeSpan\<close> that completed, a second \<open>simulateSpan\<close> puts the span back to
  \<open>awaiting_approval\<close>, and a second \<open>executeSpan\<close> succeeds and runs the forward procedure
  again, although the calls before it are not \<open>createSpan\<close> followed by \<open>simulateSpan\<close>.
\<close>

theorem executeSpan_twice_after_resimulate:
  "resimulated_run = (Inr demo_diff, Inr 7, Inr demo_diff, Inr 7, Some COMPLETED)"
  by (simp add: resimulated_run_def engine_defs demo_op_def empty_engine_def demo_world_def)

text \<open>
  Claim C3 (the code departs from it). On a span whose status is \<open>completed\<close>,
  \<open>simulateSpan\<close> does not fail: it returns the diff and leaves the span in
  \<open>awaiting_approval\<close>.
\<close>

theorem simulateSpan_on_completed_span:
  "fst (simulateSpan ''s1'' (demo_engine COMPLETED True) demo_world) = Inr demo_diff \<and>
   map_option span_status
     (spans (fst (snd (simulateSpan ''s1'' (demo_engine COMPLETED True) demo_world))) ''s1'')
     = Some AWAITING_APPROVAL"
  by (simp add: engine_defs demo_engine_defs)

text \<open>
  Claim C4. For a span of the engine with its binding: \<open>rollbackSpan\<close> succeeds only if the
  span is reversible, a rollback procedure is bound and the status is \<open>completed\<close>, and the
  span is then \<open>rolled_back\<close>; without the flag or the procedure it fails with the
  not-reversible error, and with them but another status with the invalid-state error,
  the engine unchanged in both cases; when the rollback procedure throws, its error is
  passed on and the span is as before, still \<open>completed\<close>; when it returns, the call
  succeeds. The flag of a span made by \<open>createSpan\<close> says whether a rollback procedure
  was supplied.
\<close>

theorem rollbackSpan_spec:
  assumes "spans st sid = Some sp" and "operations st sid = Some opn"
  shows
    "(rollbackSpan sid st w = (Inr (), st', w') \<longrightarrow>
        reversible sp \<and> rollback opn \<noteq> None \<and> span_status sp = COMPLETED \<and>
        spans st' sid = Some (sp\<lparr>span_status := ROLLED_BACK\<rparr>)) \<and>
     (\<not> (reversible sp \<and> rollback opn \<noteq> None) \<longrightarrow>
        rollbackSpan sid st w = (Inl (NotReversible sid), st, w)) \<and>
     (reversible sp \<and> rollback opn \<noteq> None \<and> span_status sp \<noteq> COMPLETED \<longrightarrow>
        rollbackSpan sid st w = (Inl (InvalidState sid), st, w)) \<and>
     (reversible sp \<and> rollback opn = Some rb \<and> span_status sp = COMPLETED \<and>
      fst (rb w) = Inl e \<longrightarrow>
        fst (rollbackSpan sid st w) = Inl (Raised e) \<and>
        spans (fst (snd (rollbackSpan sid st w))) sid = Some sp) \<and>
     (reversible sp \<and> rollback opn = Some rb \<and> span_status sp = COMPLETED \<and>
      fst (rb w) = Inr u \<longrightarrow>
        fst (rollbackSpan sid st w) = Inr () \<and>
        spans (fst (snd (rollbackSpan sid st w))) sid = Some (sp\<lparr>span_status := ROLLED_BACK\<rparr>)) \<and>
     (\<forall>sp'. spans (snd (createSpan rnd ty opn' parent st w))
               (fst (createSpan rnd ty opn' parent st w)) = Some sp' \<longrightarrow>
        reversible sp' = (rollback opn' \<noteq> None))"
  using assms
  by (auto simp: engine_defs
      split: option.splits prod.splits sum.splits if_splits bool.splits)

theorem rollbackSpan_spec_witness:
  "spans (demo_engine COMPLETED True) ''s1'' = Some (demo_span COMPLETED True) \<and>
   operations (demo_engine COMPLETED True) ''s1'' = Some demo_op \<and>
   fst (rollbackSpan ''s1'' (demo_engine COMPLETED True) demo_world) = Inr () \<and>
   spans (fst (snd (rollbackSpan ''s1'' (demo_engine COMPLETED True) demo_world))) ''s1''
     = Some (demo_span ROLLED_BACK True) \<and>
   fst (rollbackSpan ''s1'' failing_engine demo_world) = Inl (Raised ''boom'') \<and>
   spans (fst (snd (rollbackSpan ''s1'' failing_engine demo_world))) ''s1''
     = Some (demo_span COMPLETED True)"
proof -
  have h1: "spans (demo_engine COMPLETED True) ''s1'' = Some (demo_span COMPLETED True)"
    by (simp add: demo_engine_def)
  have h2: "operations (demo_engine COMPLETED True) ''s1'' = Some demo_op"
    by (simp add: demo_engine_def)
  have f1: "spans failing_engine ''s1'' = Some (demo_span COMPLETED True)"
    by (simp add: failing_engine_def)
  have f2: "operations failing_engine ''s1'' = Some (demo_op\<lparr>rollback := Some failing_rollback\<rparr>)"
    by (simp add: failing_engine_def)
  show ?thesis
    using h1 h2
      rollbackSpan_spec [OF h1 h2, of demo_world _ _ "\<lambda>w. (Inr (), w)" _ "()"]
      rollbackSpan_spec [OF f1 f2, of demo_world _ _ failing_rollback "''boom''"]
    by (simp add: demo_span_def demo_op_def failing_rollback_def)
qed

section \<open>Governance: properties\<close>

lemma risk_score: "score (risk_of_span sp) = spec_score (span_type sp) (reversible sp)"
  by (cases "span_type sp")
     (simp_all add: risk_of_span_def type_risk_def spec_score_def spec_type_weight_def Let_def)

lemma risk_level: "level (risk_of_span sp) = spec_level (score (risk_of_span sp))"
  by (cases "span_type sp")
     (simp_all add: risk_of_span_def type_risk_def spec_level_def Let_def)

lemma risk_pure:
  "span_type sp = span_type sp' \<Longrightarrow> reversible sp = reversible sp' \<Longrightarrow>
   risk_of_span sp = risk_of_span sp'"
  by (simp add: risk_of_span_def)

text \<open>
  Claim C5. For an existing span \<open>assessSpanRisk\<close> returns an assessment whose score is the
  weight of the span type (write 12, gui-automation 12, navigation 6, the other types 0)
  plus 25 if the span is not reversible, and whose level follows from the score by the
  thresholds 10, 20 and 35; any span, of any engine, with the same type and flag gets the
  same assessment; a write span that is not reversible scores 37 and is critical.
\<close>

theorem assessSpanRisk_spec:
  "getSpan eng spanId = Some sp \<Longrightarrow>
   (\<exists>ra. assessSpanRisk eng spanId = Inr ra \<and>
         score ra = spec_score (span_type sp) (reversible sp) \<and>
         level ra = spec_level (score ra) \<and>
         (\<forall>eng' spanId' sp'.
            getSpan (eng' :: ('y, 's) SpanEngine) spanId' = Some sp' \<and>
            span_type sp' = span_type sp \<and> reversible sp' = reversible sp \<longrightarrow>
            assessSpanRisk eng' spanId' = Inr ra) \<and>
         (span_type sp = WRITE \<and> \<not> reversible sp \<longrightarrow> score ra = 37 \<and> level ra = Critical))"
  by (auto simp: assessSpanRisk_def risk_score risk_level spec_score_def spec_type_weight_def
      spec_level_def intro: risk_pure)

theorem assessSpanRisk_spec_witness:
  "getSpan (demo_engine PENDING False) ''s1'' = Some (demo_span PENDING False) \<and>
   map_sum id score (assessSpanRisk (demo_engine PENDING False) ''s1'') = Inr 37 \<and>
   map_sum id level (assessSpanRisk (demo_engine PENDING False) ''s1'') = Inr Critical"
proof -
  have h: "getSpan (demo_engine PENDING False) ''s1'' = Some (demo_span PENDING False)"
    by (simp add: getSpan_def demo_engine_def)
  from assessSpanRisk_spec [OF h, where ?'y = unit and ?'s = nat] show ?thesis
    using h by (auto simp: demo_span_def)
qed

lemmas governance_defs =
  approveSpan_def rejectSpan_def getApproval_def Let_def demo_gov_def demo_approval_def
  getRequiredApprovers_def pending_approver_def











lemmas two_approved_defs =
  two_approved_gov_def two_approved_approval_def approved_approver_def

lemma two_approved_reached: "two_approved = Inr two_approved_gov"
  by (simp add: two_approved_def governance_defs two_approved_defs)


text \<open>
  \<open>approveSpan\<close> on an approval that is not pending fails and changes nothing (an error
  result carries no new state).
\<close>

lemma approveSpan_not_pending:
  "getApproval gov aid = Some a \<Longrightarrow> approval_status a \<noteq> ApprovalPending \<Longrightarrow>
   approveSpan now aid uid c gov = Inl (ApprovalNotPending aid)"
  by (simp add: approveSpan_def getApproval_def)

text \<open>
  Claim C7 (the code departs from it). When all three approvers have approved, the
  approval is \<open>approved\<close>, not pending; \<open>rejectSpan\<close> by a listed approver then does not
  fail: it succeeds and turns the approval to \<open>rejected\<close>.
\<close>

theorem rejectSpan_on_approved_approval:
  "\<exists>g g'. all_approved = Inr g \<and>
      map_option approval_status (getApproval g ''approval_1'') = Some ApprovalApproved \<and>
      rejectSpan 13 ''approval_1'' ''approver_1'' None g = Inr g' \<and>
      map_option approval_status (getApproval g' ''approval_1'') = Some ApprovalRejected"
  by (simp add: all_approved_def governance_defs)

section \<open>Policy evaluation: properties\<close>

text \<open>
  Every rule throws, so a loop that ends without an error has met no rule of an enabled
  policy and leaves the state as it was: when the evaluation returns, the PII rule stands.
\<close>

lemma for_each_Inr_unchanged:
  "(\<And>st x. x \<in> set xs \<Longrightarrow> f st x = Inr st \<or> (\<exists>e. f st x = Inl e)) \<Longrightarrow>
   for_each f st xs = Inr st' \<Longrightarrow> st' = st"
proof (induction xs arbitrary: st)
  case Nil then show ?case by simp
next
  case (Cons x xs)
  from Cons.prems(1)[of x st] Cons.prems(2) have "f st x = Inr st" by (auto split: sum.splits)
  with Cons.prems(2) have "for_each f st xs = Inr st'" by simp
  with Cons.IH[of st] Cons.prems(1) show ?case by auto
qed

lemma apply_rule_throws: "apply_rule sp risk policy acc rule = Inl (TypeError ''this.ruleApplies is not a function'')"
  by (simp add: apply_rule_def ruleApplies_def)

lemma apply_policy_cases:
  "apply_policy sp risk acc policy = Inr acc \<or> (\<exists>e. apply_policy sp risk acc policy = Inl e)"
  by (cases "rules policy") (simp_all add: apply_policy_def apply_rule_throws)

lemma evaluate_pii_flags:
  assumes "evaluateSpanAgainstPolicies gov eng spanId args = Inr r"
    and "hasPII (detectPII (spanContent args))" and "\<not> hasApprovedPIIContract gov spanId"
  shows "piiDetected r \<and> contractRequired r \<and> requiresApproval r"
proof -
  from assms(1) obtain sp risk acc' where
    f: "for_each (apply_policy sp risk)
          (True, True, [''PII detected - contract approval required before execution''], [])
          (map snd (policies gov)) = Inr acc'"
    and r: "r = (case acc' of (alw, req, viol, appl) \<Rightarrow>
              \<lparr>allowed = alw, requiresApproval = req, violations = viol,
               applicablePolicies = appl, piiDetected = True, contractRequired = True\<rparr>)"
    using assms(2,3)
    by (auto simp: evaluateSpanAgainstPolicies_def Let_def split: option.splits sum.splits prod.splits)
  from for_each_Inr_unchanged[OF _ f] apply_policy_cases
  have "acc' = (True, True, [''PII detected - contract approval required before execution''], [])"
    by blast
  with r show ?thesis by simp
qed

lemma pii_args_has_pii: "hasPII (detectPII (spanContent pii_args)) = True"
  by code_simp

lemma read_engine_span:
  "map_option span_type (getSpan read_engine ''span_5_r1'') = Some READ"
  by (simp add: read_engine_def getSpan_def createSpan_def Let_def addTimelineEvent_def Date_now_def
      demo_world_def empty_engine_def decimal_def)

text \<open>
  Claim C2 (the code departs from it). A read span made by \<open>createSpan\<close> carries an
  argument payload with an email address, in which \<open>detectPII\<close> finds PII, and no approval
  exists. On the governance engine as its constructor leaves it,
  \<open>evaluateSpanAgainstPolicies\<close> returns no result: the first rule of the first enabled
  policy calls \<open>ruleApplies\<close>, which the class does not define, and the \<open>TypeError\<close> ends
  the evaluation.
\<close>

theorem evaluate_throws_TypeError:
  "map_option span_type (getSpan read_engine ''span_5_r1'') = Some READ \<and>
   hasPII (detectPII (spanContent pii_args)) \<and>
   \<not> hasApprovedPIIContract default_gov ''span_5_r1'' \<and>
   evaluateSpanAgainstPolicies default_gov read_engine ''span_5_r1'' pii_args
     = Inl (TypeError ''this.ruleApplies is not a function'')"
proof -
  have c: "\<not> hasApprovedPIIContract default_gov ''span_5_r1''"
    by (simp add: hasApprovedPIIContract_def default_gov_def new_SecurityGovernanceEngine_def)
  from read_engine_span obtain sp where sp: "getSpan read_engine ''span_5_r1'' = Some sp" by auto
  have "evaluateSpanAgainstPolicies default_gov read_engine ''span_5_r1'' pii_args
     = Inl (TypeError ''this.ruleApplies is not a function'')"
    using sp
    by (simp add: evaluateSpanAgainstPolicies_def Let_def assessSpanRisk_def default_gov_def
        new_SecurityGovernanceEngine_def initializeDefaultPolicies_def apply_policy_def
        apply_rule_throws)
  with read_engine_span pii_args_has_pii c show ?thesis by simp
qed

text \<open>Without policies the evaluation returns, and the three flags are set.\<close>

lemma evaluate_without_policies:
  "\<exists>r. evaluateSpanAgainstPolicies bare_gov read_engine ''span_5_r1'' pii_args = Inr r \<and>
        piiDetected r \<and> contractRequired r \<and> requiresApproval r"
proof -
  from read_engine_span obtain sp where sp: "getSpan read_engine ''span_5_r1'' = Some sp" by auto
  have c: "\<not> hasApprovedPIIContract bare_gov ''span_5_r1''"
    by (simp add: hasApprovedPIIContract_def bare_gov_def)
  have "\<exists>r. evaluateSpanAgainstPolicies bare_gov read_engine ''span_5_r1'' pii_args = Inr r"
    using sp
    by (simp add: evaluateSpanAgainstPolicies_def Let_def assessSpanRisk_def bare_gov_def)
  with evaluate_pii_flags[OF _ _ c] pii_args_has_pii show ?thesis by auto
qed

section \<open>Timeline store: properties\<close>



lemma js_slice_paginate:
  "0 \<le> a \<Longrightarrow> 0 < n \<Longrightarrow> js_slice xs a (a + n) = take (nat n) (drop (nat a) xs)"
  by (auto simp: js_slice_def Let_def min_def nat_diff_distrib nat_add_distrib)






text \<open>
  Claim C10. When the query gives no limit, \<open>queryEvents\<close> applies the limit 100, and
  when it gives no offset, the offset 0: with neither it returns the first 100 of the
  sorted filtered events, and without a limit never more than 100. The store keeps up to
  1000 events: after \<open>logEvent\<close> it holds at most 1000, and without listeners one more
  than before, capped at 1000.
\<close>

theorem queryEvents_default_limit:
  "(q_limit q = None \<longrightarrow>
      length (queryEvents st q) \<le> 100 \<and>
      queryEvents st q = queryEvents st (q\<lparr>q_limit := Some 100\<rparr>)) \<and>
   (q_offset q = None \<longrightarrow> queryEvents st q = queryEvents st (q\<lparr>q_offset := Some 0\<rparr>)) \<and>
   (q_limit q = None \<and> q_offset q = None \<longrightarrow>
      queryEvents st q = take 100 (newest_first event_timestamp (filterEvents q (events st)))) \<and>
   length (events (snd (logEvent listeners now rnd ty src msg opts st))) \<le> 1000 \<and>
   (listeners ty = [] \<longrightarrow>
      length (events (snd (logEvent listeners now rnd ty src msg opts st)))
        = min (Suc (length (events st))) 1000)"
proof -
  have f: "\<And>v. filterEvents (q\<lparr>q_limit := v\<rparr>) = filterEvents q"
    "\<And>v. filterEvents (q\<lparr>q_offset := v\<rparr>) = filterEvents q"
    by (simp_all add: filterEvents_def)
  have 1: "q_limit q = None \<longrightarrow> length (queryEvents st q) \<le> 100"
    by (auto simp: queryEvents_def Let_def num_or_def js_slice_def split: option.splits)
  have 2: "q_limit q = None \<longrightarrow> queryEvents st q = queryEvents st (q\<lparr>q_limit := Some 100\<rparr>)"
    by (simp add: queryEvents_def Let_def num_or_def f)
  have 3: "q_offset q = None \<longrightarrow> queryEvents st q = queryEvents st (q\<lparr>q_offset := Some 0\<rparr>)"
    by (simp add: queryEvents_def Let_def num_or_def f)
  have 4: "q_limit q = None \<and> q_offset q = None \<longrightarrow>
      queryEvents st q = take 100 (newest_first event_timestamp (filterEvents q (events st)))"
    by (simp add: queryEvents_def Let_def num_or_def js_slice_paginate [of 0 100, simplified])
  have 5: "length (events (snd (logEvent listeners now rnd ty src msg opts st))) \<le> 1000"
    by (auto simp: logEvent_def Let_def js_slice_def)
  have 6: "listeners ty = [] \<longrightarrow>
      length (events (snd (logEvent listeners now rnd ty src msg opts st)))
        = min (Suc (length (events st))) 1000"
    by (auto simp: logEvent_def Let_def js_slice_def)
  from 1 2 3 4 5 6 show ?thesis by blast
qed

theorem queryEvents_default_limit_witness:
  "q_limit empty_query = None \<and> q_offset empty_query = None \<and>
   length (events big_store) = 101 \<and>
   length (queryEvents big_store empty_query) = 100 \<and>
   queryEvents big_store empty_query
     = take 100 (newest_first event_timestamp (events big_store))"
proof -
  have h: "q_limit empty_query = None" "q_offset empty_query = None"
    by (simp_all add: empty_query_def)
  have l: "length (events big_store) = 101" by (simp add: big_store_def)
  have f: "filterEvents empty_query (events big_store) = events big_store"
    by (simp add: filterEvents_def empty_query_def when_filter_def nonempty_list_def
        truthy_num_def)
  from mp [OF queryEvents_default_limit [of empty_query big_store,
              THEN conjunct2, THEN conjunct2, THEN conjunct1] conjI [OF h]]
  have e: "queryEvents big_store empty_query
     = take 100 (newest_first event_timestamp (events big_store))" by (simp add: f)
  have "length (newest_first event_timestamp (events big_store)) = 101"
    using l by (simp add: newest_first_def)
  with e have "length (queryEvents big_store empty_query) = 100" by simp
  with h l e show ?thesis by simp
qed

section \<open>PII detection: properties\<close>

lemma le_takeWhile_iff: "k \<le> length (takeWhile c s) \<longleftrightarrow> k \<le> length s \<and> (\<forall>i<k. c (s ! i))"
proof (induction s arbitrary: k)
  case Nil then show ?case by auto
next
  case (Cons a s)
  show ?case
  proof (cases k)
    case 0 then show ?thesis by simp
  next
    case (Suc k')
    then show ?thesis using Cons.IH[of k']
      by (auto simp: less_Suc_eq_0_disj)
  qed
qed

lemma le_max_count_iff:
  "k \<le> max_count c hi s \<longleftrightarrow>
   (case hi of None \<Rightarrow> True | Some h \<Rightarrow> k \<le> h) \<and> k \<le> length s \<and> (\<forall>i<k. c (s ! i))"
  by (auto simp: max_count_def le_takeWhile_iff split: option.splits)

lemma try_counts_Some:
  "try_counts K lo prev s j = Some r \<Longrightarrow>
   \<exists>k m. lo \<le> k \<and> k \<le> j \<and> K (prev_after prev s k) (drop k s) = Some m \<and> r = k + m"
proof (induction j)
  case 0
  then show ?case by (auto simp: prev_after_def split: if_splits)
next
  case (Suc j)
  show ?case
  proof (cases "K (Some (s ! j)) (drop (Suc j) s)")
    case None
    with Suc.prems have "try_counts K lo prev s j = Some r" by (auto split: if_splits)
    from Suc.IH[OF this] obtain k m where
      "lo \<le> k" "k \<le> j" "K (prev_after prev s k) (drop k s) = Some m" "r = k + m" by blast
    then show ?thesis by (intro exI[of _ k] exI[of _ m]) simp
  next
    case (Some m)
    with Suc.prems have "\<not> Suc j < lo" "r = Suc j + m" by (auto split: if_splits)
    with Some show ?thesis
      by (intro exI[of _ "Suc j"] exI[of _ m]) (simp add: prev_after_def)
  qed
qed

lemma try_counts_None:
  "try_counts K lo prev s j = None \<Longrightarrow> lo \<le> k \<Longrightarrow> k \<le> j \<Longrightarrow>
   K (prev_after prev s k) (drop k s) = None"
proof (induction j)
  case 0
  then show ?case by (auto simp: prev_after_def split: if_splits)
next
  case (Suc j)
  show ?case
  proof (cases "k = Suc j")
    case True
    with Suc.prems show ?thesis by (auto simp: prev_after_def split: if_splits option.splits)
  next
    case False
    with Suc.prems have "k \<le> j" by simp
    moreover from Suc.prems \<open>k \<le> j\<close> have "try_counts K lo prev s j = None"
      by (auto split: if_splits option.splits)
    ultimately show ?thesis using Suc.IH Suc.prems(2) by blast
  qed
qed

lemma match_here_sound: "match_here p prev s = Some n \<Longrightarrow> accepts p prev s n"
proof (induction p arbitrary: prev s n)
  case Nil then show ?case by simp
next
  case (Cons it p)
  show ?case
  proof (cases it)
    case WordBoundary
    with Cons show ?thesis by (auto split: if_splits)
  next
    case (Rep c lo hi)
    with Cons.prems have "try_counts (match_here p) lo prev s (max_count c hi s) = Some n" by simp
    from try_counts_Some[OF this] obtain k m where
      km: "lo \<le> k" "k \<le> max_count c hi s" "match_here p (prev_after prev s k) (drop k s) = Some m" "n = k + m"
      by blast
    from Cons.IH[OF km(3)] km Rep show ?thesis
      by (auto simp: le_max_count_iff intro!: exI[of _ k])
  qed
qed

lemma match_here_complete: "accepts p prev s n \<Longrightarrow> match_here p prev s \<noteq> None"
proof (induction p arbitrary: prev s n)
  case Nil then show ?case by simp
next
  case (Cons it p)
  show ?case
  proof (cases it)
    case WordBoundary
    with Cons show ?thesis by auto
  next
    case (Rep c lo hi)
    with Cons.prems obtain k where
      k: "k \<le> n" "lo \<le> k" "k \<le> max_count c hi s" "accepts p (prev_after prev s k) (drop k s) (n - k)"
      by (auto simp: le_max_count_iff)
    from Cons.IH[OF k(4)] have "match_here p (prev_after prev s k) (drop k s) \<noteq> None" .
    with try_counts_None[of "match_here p" lo prev s "max_count c hi s" k] k
    have "try_counts (match_here p) lo prev s (max_count c hi s) \<noteq> None" by blast
    with Rep show ?thesis by simp
  qed
qed

lemma accepts_length: "accepts p prev s n \<Longrightarrow> n \<le> length s"
proof (induction p arbitrary: prev s n)
  case Nil then show ?case by simp
next
  case (Cons it p)
  show ?case
  proof (cases it)
    case WordBoundary
    with Cons show ?thesis by auto
  next
    case (Rep c lo hi)
    with Cons.prems obtain k where
      k: "k \<le> n" "k \<le> length s" "accepts p (prev_after prev s k) (drop k s) (n - k)"
      by auto
    from Cons.IH[OF k(3)] k show ?thesis by simp
  qed
qed

lemma accepts_star_free:
  "accepts p prev s n \<Longrightarrow> star_free p \<Longrightarrow> CHR ''*'' \<notin> set (take n s)"
proof (induction p arbitrary: prev s n)
  case Nil then show ?case by simp
next
  case (Cons it p)
  show ?case
  proof (cases it)
    case WordBoundary
    with Cons show ?thesis by (auto simp: star_free_def)
  next
    case (Rep c lo hi)
    with Cons.prems obtain k where
      k: "k \<le> n" "k \<le> length s" "\<forall>i<k. c (s ! i)"
         "accepts p (prev_after prev s k) (drop k s) (n - k)"
      by auto
    from Cons.prems Rep have sf: "star_free p" "\<not> c (CHR ''*'')" by (auto simp: star_free_def)
    from Cons.IH[OF k(4) sf(1)] have a: "CHR ''*'' \<notin> set (take (n - k) (drop k s))" .
    have b: "CHR ''*'' \<notin> set (take k s)"
    proof
      assume "CHR ''*'' \<in> set (take k s)"
      then obtain i where "i < length (take k s)" "take k s ! i = CHR ''*''"
        by (auto simp: in_set_conv_nth)
      with k(3) sf(2) show False by auto
    qed
    have "take n s = take k s @ take (n - k) (drop k s)"
      using k(1) by (metis le_add_diff_inverse take_add)
    with a b show ?thesis by simp
  qed
qed

lemma prev_after_drop:
  "k \<le> n \<Longrightarrow> n \<le> length s \<Longrightarrow>
   prev_after (prev_after prev s k) (drop k s) (n - k) = prev_after prev s n"
  by (auto simp: prev_after_def)

lemma accepts_end_boundary:
  "accepts (p @ [WordBoundary]) prev s n \<Longrightarrow> at_boundary (prev_after prev s n) (drop n s)"
proof (induction p arbitrary: prev s n)
  case Nil then show ?case by (simp add: prev_after_def)
next
  case (Cons it p)
  show ?case
  proof (cases it)
    case WordBoundary
    with Cons show ?thesis by auto
  next
    case (Rep c lo hi)
    with Cons.prems obtain k where
      k: "k \<le> n" "k \<le> length s"
         "accepts (p @ [WordBoundary]) (prev_after prev s k) (drop k s) (n - k)"
      by auto
    from accepts_length[OF k(3)] k have n: "n \<le> length s" by simp
    from Cons.IH[OF k(3)] show ?thesis
      using k n by (simp add: prev_after_drop)
  qed
qed

lemma accepts_cong:
  "accepts p prev s n \<Longrightarrow> word_before prev = word_before prev' \<Longrightarrow> take n s = take n s' \<Longrightarrow>
   n \<le> length s' \<Longrightarrow>
   word_before (next_char (drop n s)) = word_before (next_char (drop n s')) \<Longrightarrow>
   accepts p prev' s' n"
proof (induction p arbitrary: prev prev' s s' n)
  case Nil then show ?case by simp
next
  case (Cons it p)
  have nl: "n \<le> length s" using accepts_length[OF Cons.prems(1)] .
  show ?case
  proof (cases it)
    case WordBoundary
    have "word_before (next_char s) = word_before (next_char s')"
    proof (cases n)
      case 0 with Cons.prems show ?thesis by simp
    next
      case (Suc m)
      with nl Cons.prems(4) obtain a t a' t' where "s = a # t" "s' = a' # t'"
        by (cases s; cases s') auto
      with Suc Cons.prems(3) show ?thesis by (simp add: next_char_def)
    qed
    with Cons WordBoundary show ?thesis by (auto simp: at_boundary_def)
  next
    case (Rep c lo hi)
    with Cons.prems obtain k where
      k: "k \<le> n" "lo \<le> k" "case hi of None \<Rightarrow> True | Some h \<Rightarrow> k \<le> h" "k \<le> length s"
         "\<forall>i<k. c (s ! i)" "accepts p (prev_after prev s k) (drop k s) (n - k)"
      by auto
    have nth_eq: "\<And>i. i < n \<Longrightarrow> s ! i = s' ! i"
      using Cons.prems(3) nl Cons.prems(4) by (metis nth_take)
    have 1: "word_before (prev_after prev s k) = word_before (prev_after prev' s' k)"
      using Cons.prems(2) k(1) nth_eq[of "k - 1"] by (auto simp: prev_after_def)
    have 2: "take (n - k) (drop k s) = take (n - k) (drop k s')"
      using Cons.prems(3) by (metis drop_take)
    have 3: "n - k \<le> length (drop k s')" using Cons.prems(4) by simp
    have 4: "word_before (next_char (drop (n - k) (drop k s))) =
             word_before (next_char (drop (n - k) (drop k s')))"
      using Cons.prems(5) k(1) by simp
    from Cons.IH[OF k(6) 1 2 3 4]
    have "accepts p (prev_after prev' s' k) (drop k s') (n - k)" .
    moreover have "\<forall>i<k. c (s' ! i)" using k(5) k(1) nth_eq by auto
    moreover have "k \<le> length s'" using k(1) Cons.prems(4) by simp
    ultimately show ?thesis using Rep k by auto
  qed
qed

text \<open>What a match of a PII pattern looks like.\<close>

lemma pii_pattern_match:
  assumes "pii_pattern p" and "match_here p prev s = Some n"
  shows "0 < n" and "n \<le> length s" and "CHR ''*'' \<notin> set (take n s)"
    and "at_boundary prev s" and "at_boundary (Some (s ! (n - 1))) (drop n s)"
proof -
  from assms(1) obtain c lo hi rest where
    p: "p = WordBoundary # Rep c lo hi # rest" "1 \<le> lo" "rest \<noteq> []" "last rest = WordBoundary"
       "star_free p"
    by (auto simp: pii_pattern_def split: list.splits item.splits)
  have acc: "accepts p prev s n" using match_here_sound[OF assms(2)] .
  from acc p(1,2) show "0 < n" by auto
  from accepts_length[OF acc] show "n \<le> length s" .
  from accepts_star_free[OF acc p(5)] show "CHR ''*'' \<notin> set (take n s)" .
  from acc p(1) show "at_boundary prev s" by simp
  have "p = (WordBoundary # Rep c lo hi # butlast rest) @ [WordBoundary]"
    using p(1,3,4) by (metis append_Cons append_butlast_last_id)
  with acc have "accepts ((WordBoundary # Rep c lo hi # butlast rest) @ [WordBoundary]) prev s n"
    by simp
  from accepts_end_boundary[OF this] \<open>0 < n\<close>
  show "at_boundary (Some (s ! (n - 1))) (drop n s)" by (simp add: prev_after_def)
qed

lemma pii_patterns_ok:
  "pii_pattern email_pattern" "pii_pattern ssn_pattern" "pii_pattern phone_pattern"
  "pii_pattern creditCard_pattern" "pii_pattern ipAddress_pattern" "pii_pattern passport_pattern"
  "pii_pattern driverLicense_pattern" "pii_pattern bankAccount_pattern"
  by (simp_all add: pii_pattern_def star_free_def email_pattern_def ssn_pattern_def phone_pattern_def
      creditCard_pattern_def ipAddress_pattern_def passport_pattern_def driverLicense_pattern_def
      bankAccount_pattern_def exactly_one_def optional_def is_digit_def is_upper_def is_lower_def
      is_space_def char_range_def)

lemma has_match_iff:
  "has_match q prev s \<longleftrightarrow>
   (\<exists>i\<le>length s. match_here q (prev_after prev s i) (drop i s) \<noteq> None)"
proof (induction s arbitrary: prev)
  case Nil then show ?case by (simp add: prev_after_def)
next
  case (Cons c cs)
  have "(\<exists>i\<le>length (c # cs). match_here q (prev_after prev (c # cs) i) (drop i (c # cs)) \<noteq> None)
      \<longleftrightarrow> match_here q prev (c # cs) \<noteq> None \<or>
          (\<exists>j\<le>length cs. match_here q (prev_after (Some c) cs j) (drop j cs) \<noteq> None)"
    (is "?L \<longleftrightarrow> ?A \<or> ?B")
  proof
    assume ?L
    then obtain i where i: "i \<le> length (c # cs)"
      "match_here q (prev_after prev (c # cs) i) (drop i (c # cs)) \<noteq> None" by blast
    show "?A \<or> ?B"
    proof (cases i)
      case 0 with i show ?thesis by (simp add: prev_after_def)
    next
      case (Suc j)
      have "prev_after prev (c # cs) (Suc j) = prev_after (Some c) cs j"
        by (cases j) (simp_all add: prev_after_def)
      with i Suc show ?thesis by auto
    qed
  next
    assume "?A \<or> ?B"
    then show ?L
    proof
      assume ?A
      then show ?L by (intro exI[of _ 0]) (simp add: prev_after_def)
    next
      assume ?B
      then obtain j where j: "j \<le> length cs"
        "match_here q (prev_after (Some c) cs j) (drop j cs) \<noteq> None" by blast
      have "prev_after prev (c # cs) (Suc j) = prev_after (Some c) cs j"
        by (cases j) (simp_all add: prev_after_def)
      with j show ?L by (intro exI[of _ "Suc j"]) simp
    qed
  qed
  with Cons.IH[of "Some c"] show ?case by simp
qed

lemma has_match_suffix:
  assumes "\<not> has_match q prev s" and "k \<le> length s"
  shows "\<not> has_match q (prev_after prev s k) (drop k s)"
proof
  assume "has_match q (prev_after prev s k) (drop k s)"
  then obtain i where i: "i \<le> length (drop k s)"
    "match_here q (prev_after (prev_after prev s k) (drop k s) i) (drop i (drop k s)) \<noteq> None"
    by (auto simp: has_match_iff)
  have "prev_after (prev_after prev s k) (drop k s) i = prev_after prev s (k + i)"
    using prev_after_drop[of k "k + i" s prev] i(1) assms(2) by simp
  with i have "match_here q (prev_after prev s (k + i)) (drop (k + i) s) \<noteq> None"
    by (simp add: add.commute)
  moreover have "k + i \<le> length s" using i(1) assms(2) by simp
  ultimately have "has_match q prev s" unfolding has_match_iff by blast
  with assms(1) show False by simp
qed

lemma next_char_append: "xs \<noteq> [] \<Longrightarrow> next_char (xs @ b) = next_char xs"
  by (cases xs) (simp_all add: next_char_def)

text \<open>
  A match of \<open>q\<close> in the replaced string that lies in a copied stretch \<open>u\<close> is a match of
  \<open>q\<close> in the string before the replacement.
\<close>

lemma match_transfer:
  assumes q: "pii_pattern q"
    and m: "match_here q prev' (u @ r') = Some n"
    and nu: "n \<le> length u"
    and start: "word_before prev' = word_before prev \<or>
                (\<not> word_before prev' \<and> at_boundary prev (u @ r))"
    and r': "\<not> word_before (next_char r')"
    and r: "r = [] \<or> at_boundary (prev_after prev u (length u)) r"
  shows "match_here q prev (u @ r) \<noteq> None"
proof -
  note pm = pii_pattern_match[OF q m]
  from pm(1) nu have u: "u \<noteq> []" by auto
  have acc: "accepts q prev' (u @ r') n" using match_here_sound[OF m] .
  have 1: "word_before prev' = word_before prev"
  proof (rule disjE[OF start])
    assume "\<not> word_before prev' \<and> at_boundary prev (u @ r)"
    moreover from pm(4) u have "word_before prev' \<noteq> word_before (Some (hd u))"
      by (cases u) (auto simp: at_boundary_def next_char_def)
    ultimately show ?thesis using u by (cases u) (auto simp: at_boundary_def next_char_def)
  qed simp
  have 2: "take n (u @ r') = take n (u @ r)" using nu by simp
  have 3: "n \<le> length (u @ r)" using nu by simp
  have 4: "word_before (next_char (drop n (u @ r'))) = word_before (next_char (drop n (u @ r)))"
  proof (cases "n = length u")
    case True
    from pm(5) True pm(1) nu have "at_boundary (Some (u ! (n - 1))) r'"
      by (simp add: nth_append)
    with r' have w: "word_before (Some (u ! (n - 1)))" by (simp add: at_boundary_def)
    have "\<not> word_before (next_char r)"
    proof (rule disjE[OF r])
      assume "r = []" then show ?thesis by (simp add: next_char_def word_before_def)
    next
      assume "at_boundary (prev_after prev u (length u)) r"
      with w True pm(1) show ?thesis by (simp add: at_boundary_def prev_after_def)
    qed
    with r' True show ?thesis by simp
  next
    case False
    with nu have "n < length u" by simp
    then have "drop n u \<noteq> []" by simp
    then have "next_char (drop n u @ r') = next_char (drop n u)"
      "next_char (drop n u @ r) = next_char (drop n u)" by (rule next_char_append)+
    with \<open>n < length u\<close> show ?thesis by simp
  qed
  from accepts_cong[OF acc 1 2 3 4] have "accepts q prev (u @ r) n" .
  then show ?thesis by (rule match_here_complete)
qed

text \<open>
  The result of a replacement starts with a copied stretch \<open>u\<close>; behind it the string ends,
  or the pattern matches and the result goes on with the mask.
\<close>

lemma replace_all_decomp:
  "pii_pattern p \<Longrightarrow>
   \<exists>u r r'. s = u @ r \<and> replace_all p msk prev s = u @ r' \<and>
           ((r = [] \<and> r' = []) \<or>
            (match_here p (prev_after prev u (length u)) r \<noteq> None \<and> (\<exists>t. r' = msk @ t)))"
proof (induction p msk prev s rule: replace_all.induct)
  case (1 p msk prev)
  show ?case
  proof (cases "match_here p prev []")
    case None then show ?thesis by simp
  next
    case (Some n)
    from pii_pattern_match(1,2)[OF "1.prems" Some] show ?thesis by simp
  qed
next
  case (2 p msk prev c cs)
  show ?case
  proof (cases "match_here p prev (c # cs)")
    case None
    from "2.IH"(1)[OF None "2.prems"] obtain u r r' where
      d: "cs = u @ r" "replace_all p msk (Some c) cs = u @ r'"
         "(r = [] \<and> r' = []) \<or>
          (match_here p (prev_after (Some c) u (length u)) r \<noteq> None \<and> (\<exists>t. r' = msk @ t))"
      by blast
    have "prev_after prev (c # u) (length (c # u)) = prev_after (Some c) u (length u)"
      by (cases u rule: rev_cases) (simp_all add: prev_after_def nth_append)
    with d None show ?thesis
      by (intro exI[of _ "c # u"] exI[of _ r] exI[of _ r']) auto
  next
    case (Some n)
    from pii_pattern_match(1)[OF "2.prems" Some] obtain n' where "n = Suc n'"
      by (cases n) auto
    with Some show ?thesis
      by (intro exI[of _ "[]"] exI[of _ "c # cs"]
          exI[of _ "msk @ replace_all p msk (Some ((c # cs) ! n')) (drop n' cs)"])
         (simp add: prev_after_def)
  qed
qed

lemma star_not_word: "\<not> is_word_char (CHR ''*'')"
  by (simp add: is_word_char_def is_upper_def is_lower_def is_digit_def char_range_def)

lemma mask_inner:
  assumes q: "pii_pattern q" and ok: "mask_ok q msk" and i: "i < length msk"
  shows "match_here q (prev_after prev msk i) (drop i msk @ b) = None"
proof (rule ccontr)
  assume "match_here q (prev_after prev msk i) (drop i msk @ b) \<noteq> None"
  then obtain n where m: "match_here q (prev_after prev msk i) (drop i msk @ b) = Some n" by auto
  note pm = pii_pattern_match[OF q m]
  let ?d = "drop i msk"
  have d: "?d \<noteq> []" "last ?d = CHR ''*''" using i ok by (auto simp: mask_ok_def)
  have n: "n < length ?d"
  proof (rule ccontr)
    assume "\<not> n < length ?d"
    then have "set ?d \<subseteq> set (take n (?d @ b))" by (auto simp: not_less)
    moreover have "CHR ''*'' \<in> set ?d" using d by (metis last_in_set)
    ultimately show False using pm(3) by blast
  qed
  show False
  proof (cases i)
    case 0
    with ok have "hd (take n (msk @ b)) = CHR ''*''" using pm(1)
      by (cases msk) (auto simp: mask_ok_def take_Cons')
    moreover from pm(1,2) 0 have "take n (msk @ b) \<noteq> []" by auto
    ultimately have "CHR ''*'' \<in> set (take n (msk @ b))" by (metis hd_in_set)
    with pm(3) 0 show False by simp
  next
    case (Suc j)
    have acc: "accepts q (prev_after prev msk i) (?d @ b) n" using match_here_sound[OF m] .
    have 4: "word_before (next_char (drop n (?d @ b))) = word_before (next_char (drop n ?d))"
    proof -
      from n have "drop n ?d \<noteq> []" by simp
      then have "next_char (drop n ?d @ b) = next_char (drop n ?d)" by (rule next_char_append)
      with n show ?thesis by simp
    qed
    have "accepts q (prev_after None msk i) ?d n"
      by (rule accepts_cong[OF acc]) (use n 4 Suc in \<open>simp_all add: prev_after_def\<close>)
    then have "match_here q (prev_after None msk i) (drop i msk) \<noteq> None"
      by (rule match_here_complete)
    with i have "has_match q None msk" unfolding has_match_iff by (intro exI[of _ i]) simp
    with ok show False by (simp add: mask_ok_def)
  qed
qed

lemma has_match_append:
  "has_match q prev (a @ b) \<longleftrightarrow>
   (\<exists>i<length a. match_here q (prev_after prev a i) (drop i a @ b) \<noteq> None) \<or>
   has_match q (prev_after prev a (length a)) b"
proof (induction a arbitrary: prev)
  case Nil then show ?case by (simp add: prev_after_def)
next
  case (Cons c a)
  have pa: "\<And>j. prev_after prev (c # a) (Suc j) = prev_after (Some c) a j"
    by (case_tac j) (simp_all add: prev_after_def)
  have "(\<exists>i<length (c # a). match_here q (prev_after prev (c # a) i) (drop i (c # a) @ b) \<noteq> None)
     \<longleftrightarrow> match_here q prev (c # a @ b) \<noteq> None \<or>
         (\<exists>j<length a. match_here q (prev_after (Some c) a j) (drop j a @ b) \<noteq> None)"
    (is "?L \<longleftrightarrow> ?A \<or> ?B")
  proof
    assume ?L
    then obtain i where i: "i < length (c # a)"
      "match_here q (prev_after prev (c # a) i) (drop i (c # a) @ b) \<noteq> None" by blast
    show "?A \<or> ?B"
    proof (cases i)
      case 0 with i show ?thesis by (simp add: prev_after_def)
    next
      case (Suc j) with i pa[of j] show ?thesis by auto
    qed
  next
    assume "?A \<or> ?B"
    then show ?L
    proof
      assume ?A then show ?L by (intro exI[of _ 0]) (simp add: prev_after_def)
    next
      assume ?B
      then obtain j where "j < length a"
        "match_here q (prev_after (Some c) a j) (drop j a @ b) \<noteq> None" by blast
      with pa[of j] show ?L by (intro exI[of _ "Suc j"]) simp
    qed
  qed
  moreover have "prev_after prev (c # a) (length (c # a)) = prev_after (Some c) a (length a)"
    using pa[of "length a"] by simp
  ultimately show ?case using Cons.IH[of "Some c"] by simp
qed

lemma head_no_match:
  assumes p: "pii_pattern p" and q: "pii_pattern q" and ok: "mask_ok q msk"
    and rel: "ctx_rel prev prev' s"
    and none: "match_here q prev s = None"
  shows "match_here q prev' (replace_all p msk prev s) = None"
proof (rule ccontr)
  assume "match_here q prev' (replace_all p msk prev s) \<noteq> None"
  then obtain n where m: "match_here q prev' (replace_all p msk prev s) = Some n" by auto
  from replace_all_decomp[OF p, of s msk prev] obtain u r r' where
    d: "s = u @ r" "replace_all p msk prev s = u @ r'"
       "(r = [] \<and> r' = []) \<or>
        (match_here p (prev_after prev u (length u)) r \<noteq> None \<and> (\<exists>t. r' = msk @ t))"
    by blast
  from m d have m': "match_here q prev' (u @ r') = Some n" by simp
  note pm = pii_pattern_match[OF q m']
  have r'w: "\<not> word_before (next_char r')"
    using d(3) ok
    by (cases msk) (auto simp: mask_ok_def next_char_def word_before_def star_not_word)
  have nu: "n \<le> length u"
  proof (rule ccontr)
    assume "\<not> n \<le> length u"
    then have gt: "length u < n" by simp
    with pm(2) have "r' \<noteq> []" by auto
    with d(3) obtain t where t: "r' = msk @ t" by auto
    from ok obtain ms where ms: "msk = CHR ''*'' # ms" by (cases msk) (auto simp: mask_ok_def)
    from gt have "take n (u @ r') = u @ take (n - length u) r'" by simp
    moreover from gt t ms have "CHR ''*'' \<in> set (take (n - length u) r')"
      by (cases "n - length u") auto
    ultimately show False using pm(3) by simp
  qed
  have r: "r = [] \<or> at_boundary (prev_after prev u (length u)) r"
  proof (rule disjE[OF d(3)])
    assume "match_here p (prev_after prev u (length u)) r \<noteq> None \<and> (\<exists>t. r' = msk @ t)"
    then obtain k where "match_here p (prev_after prev u (length u)) r = Some k" by auto
    from pii_pattern_match(4)[OF p this] show ?thesis by simp
  qed simp
  from rel d(1) have start: "word_before prev' = word_before prev \<or>
      (\<not> word_before prev' \<and> at_boundary prev (u @ r))" by (simp add: ctx_rel_def)
  from match_transfer[OF q m' nu start r'w r] none d(1) show False by simp
qed

text \<open>
  After the replacement of \<open>p\<close> the string has no match of \<open>p\<close>, and no match of a pattern
  \<open>q\<close> that had none before.
\<close>

lemma replace_all_no_match:
  "pii_pattern p \<Longrightarrow> pii_pattern q \<Longrightarrow> mask_ok q msk \<Longrightarrow> ctx_rel prev prev' s \<Longrightarrow>
   q = p \<or> \<not> has_match q prev s \<Longrightarrow>
   \<not> has_match q prev' (replace_all p msk prev s)"
proof (induction p msk prev s arbitrary: prev' rule: replace_all.induct)
  case (1 p msk prev)
  have a: "match_here p prev [] = None"
  proof (cases "match_here p prev []")
    case (Some n)
    from pii_pattern_match(1,2)[OF "1.prems"(1) Some] show ?thesis by simp
  qed simp
  have "match_here q prev' [] = None"
  proof (cases "match_here q prev' []")
    case (Some n)
    from pii_pattern_match(1,2)[OF "1.prems"(2) Some] show ?thesis by simp
  qed simp
  with a show ?case by simp
next
  case (2 p msk prev c cs)
  note p = "2.prems"(1) and q = "2.prems"(2) and ok = "2.prems"(3) and rel = "2.prems"(4)
    and hyp = "2.prems"(5)
  show ?case
  proof (cases "match_here p prev (c # cs)")
    case None
    have qn: "match_here q prev (c # cs) = None" using hyp None by auto
    from head_no_match[OF p q ok rel qn]
    have h: "match_here q prev' (replace_all p msk prev (c # cs)) = None" .
    have "q = p \<or> \<not> has_match q (Some c) cs" using hyp by auto
    from "2.IH"(1)[OF None p q ok _ this, of "Some c"]
    have "\<not> has_match q (Some c) (replace_all p msk (Some c) cs)" by (simp add: ctx_rel_def)
    with h None show ?thesis by simp
  next
    case (Some n)
    note pm = pii_pattern_match[OF p Some]
    from pm(1) obtain n' where n': "n = Suc n'" by (cases n) auto
    let ?rest = "replace_all p msk (Some ((c # cs) ! n')) (drop n' cs)"
    have out: "replace_all p msk prev (c # cs) = msk @ ?rest" using Some n' by simp
    have inner: "\<not> (\<exists>i<length msk. match_here q (prev_after prev' msk i) (drop i msk @ ?rest) \<noteq> None)"
      by (simp add: mask_inner[OF q ok])
    have last: "prev_after prev' msk (length msk) = Some (CHR ''*'')"
      using ok by (cases msk rule: rev_cases) (auto simp: mask_ok_def prev_after_def)
    have rel': "ctx_rel (Some ((c # cs) ! n')) (Some (CHR ''*'')) (drop n' cs)"
      using pm(5) n' by (simp add: ctx_rel_def word_before_def star_not_word)
    have hyp': "q = p \<or> \<not> has_match q (Some ((c # cs) ! n')) (drop n' cs)"
    proof (rule disjE[OF hyp])
      assume nh: "\<not> has_match q prev (c # cs)"
      from has_match_suffix[OF nh, of n] pm(2) n'
      show ?thesis by (simp add: prev_after_def)
    qed simp
    from "2.IH"(3)[OF Some n' p q ok rel' hyp']
    have "\<not> has_match q (Some (CHR ''*'')) ?rest" .
    with inner last out show ?thesis by (simp add: has_match_append)
  qed
qed

lemma match_all_empty_iff: "match_all p prev s = [] \<longleftrightarrow> \<not> has_match p prev s"
  by (induction p prev s rule: match_all.induct) (auto split: option.splits nat.splits)

lemma masks_ok:
  "list_all (\<lambda>q. list_all (\<lambda>ty. mask_ok q (mask_for ty)) (map fst PII_PATTERNS)) (map snd PII_PATTERNS)"
  by code_simp

lemma patterns_ok: "list_all pii_pattern (map snd PII_PATTERNS)"
  by (simp add: PII_PATTERNS_def pii_patterns_ok)

lemma detect_step_masked:
  "masked_of (detect_step content acc (ty, p)) =
     (if has_match p None content then replace_all p (mask_for ty) None (masked_of acc)
      else masked_of acc)"
  by (cases acc) (simp add: detect_step_def masked_of_def Let_def match_all_empty_iff)

lemma entry_ok:
  assumes "(ty, p) \<in> set PII_PATTERNS" and "(ty', q) \<in> set PII_PATTERNS"
  shows "pii_pattern p" and "mask_ok q (mask_for ty)"
proof -
  from assms(1) patterns_ok show "pii_pattern p"
    by (auto simp: list_all_iff)
  from assms masks_ok show "mask_ok q (mask_for ty)"
    by (force simp: list_all_iff)
qed

lemma detect_step_keeps:
  assumes e: "(ty, p) \<in> set PII_PATTERNS" and q: "(ty', q) \<in> set PII_PATTERNS"
    and nm: "\<not> has_match q None (masked_of acc)"
  shows "\<not> has_match q None (masked_of (detect_step content acc (ty, p)))"
  using replace_all_no_match[OF entry_ok(1)[OF e q] entry_ok(1)[OF q e] entry_ok(2)[OF e q],
      of None None "masked_of acc"] nm
  by (simp add: detect_step_masked ctx_rel_def)

lemma detect_step_clears:
  assumes e: "(ty, p) \<in> set PII_PATTERNS" and hm: "has_match p None content"
  shows "\<not> has_match p None (masked_of (detect_step content acc (ty, p)))"
  using replace_all_no_match[OF entry_ok(1)[OF e e] entry_ok(1)[OF e e] entry_ok(2)[OF e e],
      of None None "masked_of acc"] hm
  by (simp add: detect_step_masked ctx_rel_def)

lemma fold_no_match:
  assumes "set es \<subseteq> set PII_PATTERNS" and "(ty', q) \<in> set PII_PATTERNS"
    and "\<not> has_match q None (masked_of acc) \<or> ((ty', q) \<in> set es \<and> has_match q None content)"
  shows "\<not> has_match q None (masked_of (foldl (detect_step content) acc es))"
  using assms
proof (induction es arbitrary: acc)
  case Nil then show ?case by simp
next
  case (Cons e es)
  obtain ty p where e: "e = (ty, p)" by (cases e)
  with Cons.prems(1) have mem: "(ty, p) \<in> set PII_PATTERNS" by simp
  have "\<not> has_match q None (masked_of (detect_step content acc e)) \<or>
        ((ty', q) \<in> set es \<and> has_match q None content)"
  proof (cases "\<not> has_match q None (masked_of acc)")
    case True
    from detect_step_keeps[OF mem Cons.prems(2) True] e show ?thesis by simp
  next
    case False
    with Cons.prems(3) have in_es: "(ty', q) \<in> set (e # es)" and hm: "has_match q None content"
      by auto
    show ?thesis
    proof (cases "e = (ty', q)")
      case True
      with detect_step_clears[OF Cons.prems(2) hm] show ?thesis by simp
    next
      case False
      with in_es hm show ?thesis by simp
    qed
  qed
  moreover from Cons.prems(1) have "set es \<subseteq> set PII_PATTERNS" by simp
  ultimately show ?case using Cons.IH[OF _ Cons.prems(2)] by simp
qed

lemma masked_no_match:
  assumes "(ty, q) \<in> set PII_PATTERNS"
  shows "\<not> has_match q None (maskedContent (detectPII content))"
proof -
  have "\<not> has_match q None (masked_of (foldl (detect_step content) ([], content, 0) PII_PATTERNS))"
    by (rule fold_no_match[OF subset_refl assms]) (use assms in \<open>auto simp: masked_of_def\<close>)
  then show ?thesis
    by (auto simp: detectPII_def masked_of_def split: prod.splits)
qed

lemma fold_unchanged:
  "\<forall>(ty, p) \<in> set es. \<not> has_match p None content \<Longrightarrow> foldl (detect_step content) acc es = acc"
  by (induction es arbitrary: acc)
     (auto simp: detect_step_def match_all_empty_iff split: prod.splits)

lemma detectPII_no_match:
  assumes "\<forall>(ty, p) \<in> set PII_PATTERNS. \<not> has_match p None content"
  shows "detectPII content =
     \<lparr>hasPII = False, piiTypes = [], confidence = 0, maskedContent = content,
      originalContent = content\<rparr>"
  by (simp add: detectPII_def fold_unchanged[OF assms])

lemma fold_confidence_nonneg:
  "0 \<le> snd (snd acc) \<Longrightarrow> 0 \<le> snd (snd (foldl (detect_step content) acc es))"
  by (induction es arbitrary: acc)
     (auto simp: detect_step_def Let_def split: prod.splits)

text \<open>
  Claim C8. For every content the confidence that \<open>detectPII\<close> returns is at least 0 and
  at most 1, and \<open>detectPII\<close> on the masked content of a result finds no PII and returns
  that content as it is.
\<close>

theorem detectPII_confidence_and_idempotent:
  "0 \<le> confidence (detectPII content) \<and> confidence (detectPII content) \<le> 1 \<and>
   hasPII (detectPII (maskedContent (detectPII content))) = False \<and>
   maskedContent (detectPII (maskedContent (detectPII content))) = maskedContent (detectPII content)"
proof -
  have "0 \<le> snd (snd (foldl (detect_step content) ([], content, 0) PII_PATTERNS))"
    by (rule fold_confidence_nonneg) simp
  then have c: "0 \<le> confidence (detectPII content) \<and> confidence (detectPII content) \<le> 1"
    by (auto simp: detectPII_def split: prod.splits)
  have "\<forall>(ty, p) \<in> set PII_PATTERNS. \<not> has_match p None (maskedContent (detectPII content))"
    using masked_no_match by blast
  from detectPII_no_match[OF this] c show ?thesis by simp
qed

end
